theory Spec2Isabelle
  imports Complex_Main "HOL-Library.Sublist"
begin

section \<open>Python values and string primitives\<close>

text \<open>
  A Python \<open>str\<close> is modelled as a \<^typ>\<open>string\<close>; a \<^typ>\<open>char\<close> stands for the code
  point of the same number, so the model covers the texts whose code points lie below 256.
  The substring test \<open>sub in s\<close> is \<^const>\<open>sublist\<close> \<open>sub s\<close>.
  An exception is a value carrying the text of \<open>str(e)\<close>; \<open>Raised cls msg\<close> is an
  exception of any other class, raised by a collaborator.
\<close>

datatype exn =
    RuntimeError string
  | KeyError string
  | IndexError string
  | TypeError string
  | AttributeError string
  | Raised string string

fun exn_str :: "exn \<Rightarrow> string" where
  "exn_str (RuntimeError m) = m"
| "exn_str (KeyError m) = m"
| "exn_str (IndexError m) = m"
| "exn_str (TypeError m) = m"
| "exn_str (AttributeError m) = m"
| "exn_str (Raised c m) = m"

text \<open>
  The values a JSON document or a host reply can hold. \<open>PFloat\<close> carries the exact value
  of a finite float; a \<open>dict\<close> is an association list with string keys.
\<close>

datatype pyval =
    PNone
  | PBool bool
  | PInt int
  | PFloat rat
  | PStr string
  | PList "pyval list"
  | PDict "(string \<times> pyval) list"

type_synonym pydict = "(string \<times> pyval) list"

text \<open>\<open>d.get(key, default)\<close>\<close>

definition dict_get :: "pydict \<Rightarrow> string \<Rightarrow> pyval \<Rightarrow> pyval" where
  "dict_get d k dflt = (case map_of d k of Some v \<Rightarrow> v | None \<Rightarrow> dflt)"

text \<open>Truth value of an object, as \<open>if x:\<close> and \<open>or\<close> test it.\<close>

fun truthy :: "pyval \<Rightarrow> bool" where
  "truthy PNone = False"
| "truthy (PBool b) = b"
| "truthy (PInt i) = (i \<noteq> 0)"
| "truthy (PFloat x) = (x \<noteq> 0)"
| "truthy (PStr s) = (s \<noteq> [])"
| "truthy (PList xs) = (xs \<noteq> [])"
| "truthy (PDict kvs) = (kvs \<noteq> [])"

text \<open>Truth value of an \<open>Optional[str]\<close>: \<open>None\<close> and the empty text are false.\<close>

fun truthy_str :: "string option \<Rightarrow> bool" where
  "truthy_str None = False"
| "truthy_str (Some s) = (s \<noteq> [])"

fun type_name :: "pyval \<Rightarrow> string" where
  "type_name PNone = ''NoneType''"
| "type_name (PBool b) = ''bool''"
| "type_name (PInt i) = ''int''"
| "type_name (PFloat x) = ''float''"
| "type_name (PStr s) = ''str''"
| "type_name (PList xs) = ''list''"
| "type_name (PDict kvs) = ''dict''"

text \<open>\<open>str(i)\<close> for an integer.\<close>

definition digit_char :: "nat \<Rightarrow> char" where
  "digit_char d = char_of (48 + d)"

fun nat_str :: "nat \<Rightarrow> string" where
  "nat_str n = (if n < 10 then [digit_char n] else nat_str (n div 10) @ [digit_char (n mod 10)])"

definition int_str :: "int \<Rightarrow> string" where
  "int_str i = (if i < 0 then ''-'' @ nat_str (nat (- i)) else nat_str (nat i))"

text \<open>
  \<open>repr\<close> of a text: quoted with \<open>'\<close>, or with \<open>"\<close> when the text holds \<open>'\<close> and no
  \<open>"\<close>; the quote and the backslash are escaped, and so is every character that is not
  printable.
\<close>

definition hex_char :: "nat \<Rightarrow> char" where
  "hex_char d = (if d < 10 then char_of (48 + d) else char_of (87 + d))"

definition printable :: "char \<Rightarrow> bool" where
  "printable c =
     (let n = (of_char c :: nat) in (32 \<le> n \<and> n < 127) \<or> (161 \<le> n \<and> n \<noteq> 173))"

definition repr_char :: "char \<Rightarrow> char \<Rightarrow> string" where
  "repr_char q c =
     (if c = q \<or> c = CHR 0x5C then [CHR 0x5C, c]
      else if c = CHR 0x09 then [CHR 0x5C, CHR ''t'']
      else if c = CHR 0x0A then [CHR 0x5C, CHR ''n'']
      else if c = CHR 0x0D then [CHR 0x5C, CHR ''r'']
      else if printable c then [c]
      else [CHR 0x5C, CHR ''x'', hex_char (of_char c div 16), hex_char (of_char c mod 16)])"

definition str_repr :: "string \<Rightarrow> string" where
  "str_repr s =
     (let q = (if CHR 0x27 \<in> set s \<and> CHR 0x22 \<notin> set s then CHR 0x22 else CHR 0x27)
      in [q] @ concat (map (repr_char q) s) @ [q])"

text \<open>\<open>sep.join(parts)\<close>\<close>

fun join :: "'a list \<Rightarrow> 'a list list \<Rightarrow> 'a list" where
  "join sep [] = []"
| "join sep [x] = x"
| "join sep (x # y # ys) = x @ sep @ join sep (y # ys)"

text \<open>
  \<open>repr(v)\<close> and \<open>str(v)\<close>. The shortest decimal that \<open>repr\<close> prints for a float is not
  modelled: it is the parameter \<open>fr\<close>.
\<close>

fun py_repr :: "(rat \<Rightarrow> string) \<Rightarrow> pyval \<Rightarrow> string" where
  "py_repr fr PNone = ''None''"
| "py_repr fr (PBool b) = (if b then ''True'' else ''False'')"
| "py_repr fr (PInt i) = int_str i"
| "py_repr fr (PFloat x) = fr x"
| "py_repr fr (PStr s) = str_repr s"
| "py_repr fr (PList xs) = ''['' @ join '', '' (map (py_repr fr) xs) @ '']''"
| "py_repr fr (PDict kvs) =
     ''{'' @ join '', '' (map (\<lambda>kv. str_repr (fst kv) @ '': '' @ py_repr fr (snd kv)) kvs) @ ''}''"

definition py_str :: "(rat \<Rightarrow> string) \<Rightarrow> pyval \<Rightarrow> string" where
  "py_str fr v = (case v of PStr s \<Rightarrow> s | _ \<Rightarrow> py_repr fr v)"

text \<open>\<open>str(x)\<close> for an \<open>Optional[str]\<close>.\<close>

fun str_opt :: "string option \<Rightarrow> string" where
  "str_opt None = ''None''"
| "str_opt (Some s) = s"

text \<open>\<open>str.isspace\<close> on one character: the white space of Unicode below 256.\<close>

definition isspace :: "char \<Rightarrow> bool" where
  "isspace c =
     (let n = (of_char c :: nat)
      in (9 \<le> n \<and> n \<le> 13) \<or> (28 \<le> n \<and> n \<le> 32) \<or> n = 133 \<or> n = 160)"

text \<open>\<open>s.strip()\<close>\<close>

definition strip :: "string \<Rightarrow> string" where
  "strip s = rev (dropWhile isspace (rev (dropWhile isspace s)))"

text \<open>
  \<open>s.find(sub, start)\<close>: the lowest index at or after \<open>start\<close> where \<open>sub\<close> begins,
  or \<open>-1\<close>. \<open>find_aux sub s i\<close> searches \<open>s\<close>, whose first element has index \<open>i\<close>.
\<close>

fun find_aux :: "'a list \<Rightarrow> 'a list \<Rightarrow> int \<Rightarrow> int" where
  "find_aux sub [] i = (if sub = [] then i else - 1)"
| "find_aux sub (c # cs) i = (if prefix sub (c # cs) then i else find_aux sub cs (i + 1))"

definition find_from :: "'a list \<Rightarrow> 'a list \<Rightarrow> int \<Rightarrow> int" where
  "find_from s sub start =
     (let n = int (length s);
          st = (if start < 0 then max (start + n) 0 else start)
      in if n < st then - 1 else find_aux sub (drop (nat st) s) st)"

definition py_find :: "'a list \<Rightarrow> 'a list \<Rightarrow> int" where
  "py_find s sub = find_from s sub 0"

text \<open>\<open>s.rfind(sub)\<close>: the highest index where \<open>sub\<close> begins, or \<open>-1\<close>.\<close>

fun rfind_aux :: "'a list \<Rightarrow> 'a list \<Rightarrow> int \<Rightarrow> int" where
  "rfind_aux sub [] i = (if sub = [] then i else - 1)"
| "rfind_aux sub (c # cs) i =
     (let r = rfind_aux sub cs (i + 1)
      in if r \<noteq> - 1 then r else if prefix sub (c # cs) then i else - 1)"

definition py_rfind :: "'a list \<Rightarrow> 'a list \<Rightarrow> int" where
  "py_rfind s sub = rfind_aux sub s 0"

text \<open>
  The slice \<open>xs[lo:hi]\<close> (step 1); \<open>None\<close> is an omitted bound, a negative bound counts
  from the end, and every bound is clamped to the list.
\<close>

definition py_slice :: "'a list \<Rightarrow> int option \<Rightarrow> int option \<Rightarrow> 'a list" where
  "py_slice xs lo hi =
     (let n = int (length xs);
          clamp = (\<lambda>i. if i < 0 then max (i + n) 0 else min i n);
          l = (case lo of None \<Rightarrow> 0 | Some i \<Rightarrow> clamp i);
          h = (case hi of None \<Rightarrow> n | Some j \<Rightarrow> clamp j)
      in take (nat (h - l)) (drop (nat l) xs))"

text \<open>\<open>xs[i]\<close> for \<open>i \<ge> 0\<close>, raising \<open>IndexError\<close> out of range.\<close>

definition py_index :: "'a list \<Rightarrow> nat \<Rightarrow> exn + 'a" where
  "py_index xs i =
     (if i < length xs then Inr (xs ! i) else Inl (IndexError ''list index out of range''))"

text \<open>
  \<open>s.split(sep)\<close> for a non-empty separator: the pieces between the occurrences of
  \<open>sep\<close>, found from the left without overlap. (Python raises \<open>ValueError\<close> for an
  empty separator; the callers pass non-empty literals, and the model returns no piece.)
\<close>

function py_split :: "'a list \<Rightarrow> 'a list \<Rightarrow> 'a list list" where
  "py_split s sep =
     (if sep = [] then []
      else if find_from s sep 0 = - 1 then [s]
      else take (nat (find_from s sep 0)) s
             # py_split (drop (nat (find_from s sep 0) + length sep) s) sep)"
  by pat_completeness auto
termination
proof (relation "measure (\<lambda>(s, sep). length s)")
  show "wf (measure (\<lambda>(s, sep). length s))"
    by simp
next
  fix s sep :: "'a list"
  assume sep: "sep \<noteq> []" and found: "find_from s sep 0 \<noteq> - 1"
  have "s \<noteq> []"
    using sep found by (auto simp: find_from_def)
  then show "((drop (nat (find_from s sep 0) + length sep) s, sep), (s, sep))
               \<in> measure (\<lambda>(s, sep). length s)"
    using sep by (cases s) simp_all
qed

declare py_split.simps [simp del]
declare nat_str.simps [simp del]

section \<open>Response parser\<close>

text \<open>\<open>extract_code_from_response\<close> of \<open>vision_utils.py\<close>.\<close>

definition extract_code_from_response :: "string \<Rightarrow> string" where
  "extract_code_from_response response =
     (if sublist ''```python'' response then
        (let start = py_find response ''```python'' + int (length ''```python'');
             end' = find_from response ''```'' start
         in if end' > start then strip (py_slice response (Some start) (Some end'))
            else strip response)
      else if sublist ''```'' response then
        (let start = py_find response ''```'' + 3;
             end' = find_from response ''```'' start
         in if end' > start then strip (py_slice response (Some start) (Some end'))
            else strip response)
      else strip response)"

text \<open>
  \<open>extract_json_from_content\<close> of \<open>vision_utils.py\<close>. \<open>json_content\<close> is the text the
  function hands to \<open>json.loads\<close> (its local variable of that name); \<open>json.loads\<close>
  belongs to the standard library and is the parameter \<open>json_loads\<close>.
\<close>

definition json_content :: "string \<Rightarrow> exn + string" where
  "json_content content =
     (if sublist ''```json'' content then
        (case py_index (py_split content ''```json'') 1 of
           Inl e \<Rightarrow> Inl e
         | Inr after_tag \<Rightarrow>
             (case py_index (py_split after_tag ''```'') 0 of
                Inl e \<Rightarrow> Inl e
              | Inr block \<Rightarrow> Inr (strip block)))
      else if sublist ''{'' content \<and> sublist ''}'' content then
        (let start = py_find content ''{'';
             end' = py_rfind content ''}'' + 1
         in Inr (py_slice content (Some start) (Some end')))
      else Inr (strip content))"

definition extract_json_from_content :: "(string \<Rightarrow> exn + 'j) \<Rightarrow> string \<Rightarrow> exn + 'j" where
  "extract_json_from_content json_loads content =
     (case json_content content of Inl e \<Rightarrow> Inl e | Inr c \<Rightarrow> json_loads c)"

text \<open>
  The vocabulary of the parser's contract. \<open>fenced_block tag s pre body rest\<close>: the first
  \<open>tag\<close> of \<open>s\<close> comes after \<open>pre\<close>, the next fence after that tag closes the block, and
  \<open>body\<close> is the text between them. \<open>unclosed_opener tag s pre rest\<close>: the first \<open>tag\<close> of
  \<open>s\<close> comes after \<open>pre\<close> and no fence follows it. \<open>before sep s\<close>: the text of \<open>s\<close> up
  to the first \<open>sep\<close>, all of \<open>s\<close> when there is none.
\<close>

definition fenced_block :: "string \<Rightarrow> string \<Rightarrow> string \<Rightarrow> string \<Rightarrow> string \<Rightarrow> bool" where
  "fenced_block tag s pre body rest \<longleftrightarrow>
     s = pre @ tag @ body @ ''```'' @ rest
     \<and> \<not> sublist tag (pre @ butlast tag)
     \<and> \<not> sublist ''```'' (body @ ''``'')"

definition unclosed_opener :: "string \<Rightarrow> string \<Rightarrow> string \<Rightarrow> string \<Rightarrow> bool" where
  "unclosed_opener tag s pre rest \<longleftrightarrow>
     s = pre @ tag @ rest \<and> \<not> sublist tag (pre @ butlast tag) \<and> \<not> sublist ''```'' rest"

definition before :: "'a list \<Rightarrow> 'a list \<Rightarrow> 'a list" where
  "before sep s = (if sublist sep s then take (nat (py_find s sep)) s else s)"

section \<open>Context memory\<close>

text \<open>\<open>IterationContext\<close> and \<open>VIGAMemory\<close> of \<open>memory.py\<close>.\<close>

record IterationContext =
  iteration_id :: int
  plan :: "string option"
  code :: "string option"
  code_diff :: "string option"
  execution_result :: "string option"
  visual_feedback :: "string option"
  rendered_image_path :: "string option"

definition IterationContext_init :: "int \<Rightarrow> string option \<Rightarrow> string option \<Rightarrow> IterationContext" where
  "IterationContext_init i p c =
     \<lparr>iteration_id = i, plan = p, code = c, code_diff = None, execution_result = None,
      visual_feedback = None, rendered_image_path = None\<rparr>"

definition to_prompt_str :: "IterationContext \<Rightarrow> string" where
  "to_prompt_str ctx =
     join ''\<newline>''
       ([''## Iteration '' @ int_str (iteration_id ctx)]
        @ (if truthy_str (plan ctx) then [''**Plan**: '' @ str_opt (plan ctx)] else [])
        @ (if truthy_str (code ctx)
           then [''**Code Generated**: \<newline>```python\<newline>'' @ str_opt (code ctx) @ ''\<newline>```'']
           else [])
        @ (if truthy_str (visual_feedback ctx)
           then [''**Verifier Feedback**: '' @ str_opt (visual_feedback ctx)]
           else []))"

record VIGAMemory =
  history :: "IterationContext list"
  window_size :: int
  static_context :: "string \<rightharpoonup> string"

definition VIGAMemory_init :: "int \<Rightarrow> VIGAMemory" where
  "VIGAMemory_init k = \<lparr>history = [], window_size = k, static_context = Map.empty\<rparr>"

definition add_iteration :: "VIGAMemory \<Rightarrow> IterationContext \<Rightarrow> VIGAMemory" where
  "add_iteration m context = m\<lparr>history := history m @ [context]\<rparr>"

text \<open>\<open>self.history[-self.window_size:]\<close>\<close>

definition get_context_window :: "VIGAMemory \<Rightarrow> IterationContext list" where
  "get_context_window m = py_slice (history m) (Some (- window_size m)) None"

definition get_full_prompt :: "VIGAMemory \<Rightarrow> string" where
  "get_full_prompt m =
     foldl (\<lambda>prompt ctx. prompt @ to_prompt_str ctx @ ''\<newline>\<newline>'')
       ''### Interaction History (Recent)\<newline>\<newline>'' (get_context_window m)"

text \<open>The loop of \<open>get_latest_code\<close> over \<open>reversed(self.history)\<close>.\<close>

fun first_code :: "IterationContext list \<Rightarrow> string" where
  "first_code [] = []"
| "first_code (ctx # rest) = (if truthy_str (code ctx) then str_opt (code ctx) else first_code rest)"

definition get_latest_code :: "VIGAMemory \<Rightarrow> string" where
  "get_latest_code m = first_code (rev (history m))"

text \<open>The memory after \<open>add_iteration\<close> has been called with each record of a list in turn.\<close>

definition appended :: "int \<Rightarrow> IterationContext list \<Rightarrow> VIGAMemory" where
  "appended k recs = foldl add_iteration (VIGAMemory_init k) recs"

section \<open>The VIGA loop\<close>

text \<open>
  The collaborators of \<open>agent.py\<close> are the fields of \<open>env\<close>; each takes the index \<open>t\<close> of
  the iteration in which it is called, so that it may answer differently from one iteration
  to the next, and each may raise. \<open>generate_text\<close> is the foundation model,
  \<open>mcp_execute_code\<close> the host running the generated code; \<open>initialize_viewpoint\<close>,
  \<open>get_scene_info_text\<close> and \<open>get_viewport_screenshot\<close> are the skills and host calls of
  the verifier. \<open>float_repr\<close> is \<open>repr\<close> on floats. Printing is left out.
\<close>

record env =
  generate_text :: "nat \<Rightarrow> string \<Rightarrow> string \<Rightarrow> pyval list \<Rightarrow> exn + string"
  mcp_execute_code :: "nat \<Rightarrow> string option \<Rightarrow> exn + pydict"
  initialize_viewpoint :: "nat \<Rightarrow> exn + unit"
  get_scene_info_text :: "nat \<Rightarrow> exn + string"
  get_viewport_screenshot :: "nat \<Rightarrow> exn + pydict"
  float_repr :: "rat \<Rightarrow> string"

text \<open>\<open>SkillLibrary.make_plan\<close>\<close>

definition make_plan :: "env \<Rightarrow> nat \<Rightarrow> string \<Rightarrow> string \<Rightarrow> exn + string" where
  "make_plan e t task_description context_memory =
     generate_text e t ''You are a 3D planning agent.''
       (''Task: '' @ task_description @ ''\<newline>Context: '' @ context_memory
        @ ''\<newline>Create a step-by-step plan for the next iteration of Blender editing.'') []"

text \<open>\<open>GeneratorAgent.generate_step\<close>\<close>

definition generate_step :: "env \<Rightarrow> string \<Rightarrow> VIGAMemory \<Rightarrow> nat \<Rightarrow> exn + IterationContext" where
  "generate_step e task memory iteration =
     (let context_str = get_full_prompt memory
      in case make_plan e iteration task context_str of
           Inl x \<Rightarrow> Inl x
         | Inr plan' \<Rightarrow>
             (let latest_code = get_latest_code memory;
                  system_prompt = ''You are an expert Blender Python scripter. Generate robust code.'';
                  user_prompt =
                    ''Task: '' @ task @ ''\<newline>Current Plan: '' @ plan'
                    @ ''\<newline>Context History:\<newline>'' @ context_str
                    @ ''\<newline>\<newline>Latest Code:\<newline>```python\<newline>'' @ latest_code
                    @ ''\<newline>```\<newline>\<newline>Generate the next version of the code. Output full executable python code.''
              in case generate_text e iteration system_prompt user_prompt [] of
                   Inl x \<Rightarrow> Inl x
                 | Inr response \<Rightarrow>
                     Inr (IterationContext_init (int iteration) (Some plan')
                            (Some (extract_code_from_response response)))))"

text \<open>\<open>VerifierAgent.verify_step\<close>\<close>

definition verify_step :: "env \<Rightarrow> nat \<Rightarrow> string \<Rightarrow> IterationContext \<Rightarrow> exn + string" where
  "verify_step e t task ctx =
     (case initialize_viewpoint e t of
        Inl x \<Rightarrow> Inl x
      | Inr u \<Rightarrow>
          (case get_scene_info_text e t of
             Inl x \<Rightarrow> Inl x
           | Inr scene_info \<Rightarrow>
               (case get_viewport_screenshot e t of
                  Inl x \<Rightarrow> Inl x
                | Inr screenshot_res \<Rightarrow>
                    (let img_data = dict_get screenshot_res ''image_data'' (PStr []);
                         system_prompt = ''You are a Vision-as-Inverse-Graphics Verifier.'';
                         user_prompt =
                           ''Task: '' @ task @ ''\<newline>Scene Info: '' @ scene_info
                           @ ''\<newline>Verify if the rendered image matches the task. ''
                           @ ''\<newline>Provide specific feedback on geometry, placement, and materials.''
                           @ ''\<newline>Suggest specific fixes.''
                     in generate_text e t system_prompt user_prompt [img_data]))))"

text \<open>
  One pass of the body of the \<open>for\<close> loop of \<open>VIGAAgent.run_loop\<close>: the memory after the
  pass and whether the pass ends in \<open>break\<close>, or the exception that leaves the loop.
\<close>

definition iteration :: "env \<Rightarrow> string \<Rightarrow> nat \<Rightarrow> VIGAMemory \<Rightarrow> exn + VIGAMemory \<times> bool" where
  "iteration e task_instruction t memory =
     (case generate_step e task_instruction memory t of
        Inl x \<Rightarrow> Inl x
      | Inr ctx \<Rightarrow>
          (case mcp_execute_code e t (code ctx) of
             Inl x \<Rightarrow> Inl x
           | Inr exec_result \<Rightarrow>
               (let ctx1 = ctx\<lparr>execution_result := Some (py_str (float_repr e) (PDict exec_result))\<rparr>
                in case (if dict_get exec_result ''status'' PNone = PStr ''error''
                         then Inr (''Execution Error: ''
                                   @ py_str (float_repr e) (dict_get exec_result ''errors'' PNone))
                         else verify_step e t task_instruction ctx1) of
                     Inl x \<Rightarrow> Inl x
                   | Inr feedback \<Rightarrow>
                       (let ctx2 = ctx1\<lparr>visual_feedback := Some feedback\<rparr>
                        in Inr (add_iteration memory ctx2,
                                sublist ''OBJECTIVE COMPLETE'' (str_opt (visual_feedback ctx2)))))))"

text \<open>
  The \<open>for\<close> loop over the remaining indices. The result is the exception that escaped,
  if any, and the memory as the run leaves it.
\<close>

fun loop :: "env \<Rightarrow> string \<Rightarrow> nat list \<Rightarrow> VIGAMemory \<Rightarrow> exn option \<times> VIGAMemory" where
  "loop e task_instruction [] memory = (None, memory)"
| "loop e task_instruction (t # ts) memory =
     (case iteration e task_instruction t memory of
        Inl x \<Rightarrow> (Some x, memory)
      | Inr (memory', stop) \<Rightarrow>
          if stop then (None, memory') else loop e task_instruction ts memory')"

definition run_loop :: "env \<Rightarrow> string \<Rightarrow> int \<Rightarrow> VIGAMemory \<Rightarrow> exn option \<times> VIGAMemory" where
  "run_loop e task_instruction max_iterations memory =
     loop e task_instruction [0..<nat max_iterations]
       (memory\<lparr>static_context := (static_context memory)(''task'' \<mapsto> task_instruction)\<rparr>)"

text \<open>
  The vocabulary of the loop's contract. \<open>has_sentinel r\<close>: the feedback of the record
  carries the convergence sentinel, as the loop tests it. \<open>iteration_succeeds e task t stop\<close>:
  in iteration \<open>t\<close> the generator returns a record, the host returns a reply whose status
  is not \<open>error\<close>, and the verifier returns a feedback that carries the sentinel exactly
  when \<open>stop\<close> holds. \<open>host_fails e task t\<close>: in iteration \<open>t\<close> the generator returns a
  record and the host returns a reply of status \<open>error\<close>, the failure text recorded for
  it being free of the sentinel.
\<close>

definition has_sentinel :: "IterationContext \<Rightarrow> bool" where
  "has_sentinel r = sublist ''OBJECTIVE COMPLETE'' (str_opt (visual_feedback r))"

definition iteration_succeeds :: "env \<Rightarrow> string \<Rightarrow> nat \<Rightarrow> bool \<Rightarrow> bool" where
  "iteration_succeeds e task t stop \<longleftrightarrow>
     (\<forall>memory. \<exists>ctx. generate_step e task memory t = Inr ctx)
     \<and> (\<forall>c. \<exists>r. mcp_execute_code e t c = Inr r \<and> dict_get r ''status'' PNone \<noteq> PStr ''error'')
     \<and> (\<forall>ctx. \<exists>fb. verify_step e t task ctx = Inr fb \<and> sublist ''OBJECTIVE COMPLETE'' fb = stop)"

definition host_fails :: "env \<Rightarrow> string \<Rightarrow> nat \<Rightarrow> bool" where
  "host_fails e task t \<longleftrightarrow>
     (\<forall>memory. \<exists>ctx. generate_step e task memory t = Inr ctx)
     \<and> (\<forall>c. \<exists>r. mcp_execute_code e t c = Inr r \<and> dict_get r ''status'' PNone = PStr ''error''
            \<and> \<not> sublist ''OBJECTIVE COMPLETE''
                  (''Execution Error: '' @ py_str (float_repr e) (dict_get r ''errors'' PNone)))"

text \<open>
  Test doubles in the manner of \<open>MockMCPClient\<close> and \<open>MockModel\<close> of the test suite.
  \<open>converging_env\<close>: the model answers \<open>ok\<close>, but \<open>OBJECTIVE COMPLETE\<close> when it is shown
  an image in iteration 2; the host succeeds. \<open>failing_env errors\<close>: the host rejects
  every program with the given list of errors, and every skill of the verifier raises.
\<close>

definition converging_env :: env where
  "converging_env =
     \<lparr>generate_text = (\<lambda>t system_prompt user_prompt images.
          Inr (if t = 2 \<and> images \<noteq> [] then ''OBJECTIVE COMPLETE'' else ''ok'')),
      mcp_execute_code = (\<lambda>t c. Inr [(''status'', PStr ''success''), (''output'', PStr ''Code executed'')]),
      initialize_viewpoint = (\<lambda>t. Inr ()),
      get_scene_info_text = (\<lambda>t. Inr ''{}''),
      get_viewport_screenshot = (\<lambda>t. Inr [(''status'', PStr ''success''), (''image_data'', PStr ''fake_base64_image'')]),
      float_repr = (\<lambda>x. [])\<rparr>"

definition failing_env :: "string list \<Rightarrow> env" where
  "failing_env errors =
     \<lparr>generate_text = (\<lambda>t system_prompt user_prompt images. Inr ''ok''),
      mcp_execute_code = (\<lambda>t c. Inr [(''status'', PStr ''error''), (''output'', PStr []),
                                       (''errors'', PList (map PStr errors))]),
      initialize_viewpoint = (\<lambda>t. Inl (Raised ''AssertionError'' ''verifier called'')),
      get_scene_info_text = (\<lambda>t. Inl (Raised ''AssertionError'' ''verifier called'')),
      get_viewport_screenshot = (\<lambda>t. Inl (Raised ''AssertionError'' ''verifier called'')),
      float_repr = (\<lambda>x. [])\<rparr>"

section \<open>Foundation model gateway\<close>

text \<open>
  \<open>Qwen3VL.generate_text\<close> of \<open>modern_models.py\<close>. The request body is a record, the
  content of a message is a text or a list of parts, and the HTTP session is the parameter
  \<open>post\<close>: \<open>post n url payload\<close> is the answer to the \<open>n\<close>-th request of the call, or the
  exception the request raises. The model returns, next to the result, the requests it
  has sent, in order.
\<close>

datatype part = TextPart string | ImageUrlPart string

datatype content = Text string | Parts "part list"

record message =
  role :: string
  content :: content

record chat_payload =
  model :: string
  messages :: "message list"
  temperature :: rat
  max_tokens :: int

record http_response =
  status :: int
  text_body :: "exn + string"
  json_body :: "exn + pyval"

record Qwen3VL =
  model_name :: string
  endpoint :: string
  timeout_s :: rat
  qwen_temperature :: rat
  qwen_max_tokens :: int
  served_model :: string

definition quoted :: "string \<Rightarrow> string" where
  "quoted s = [CHR 0x27] @ s @ [CHR 0x27]"

text \<open>\<open>v[key]\<close> and \<open>v[0]\<close> on a decoded JSON value.\<close>

fun getitem_key :: "pyval \<Rightarrow> string \<Rightarrow> exn + pyval" where
  "getitem_key (PDict kvs) k =
     (case map_of kvs k of Some v \<Rightarrow> Inr v | None \<Rightarrow> Inl (KeyError (str_repr k)))"
| "getitem_key (PList xs) k = Inl (TypeError ''list indices must be integers or slices, not str'')"
| "getitem_key (PStr s) k = Inl (TypeError (''string indices must be integers, not '' @ quoted ''str''))"
| "getitem_key v k = Inl (TypeError (quoted (type_name v) @ '' object is not subscriptable''))"

fun getitem_0 :: "pyval \<Rightarrow> exn + pyval" where
  "getitem_0 (PList xs) =
     (case xs of [] \<Rightarrow> Inl (IndexError ''list index out of range'') | x # _ \<Rightarrow> Inr x)"
| "getitem_0 (PStr s) =
     (case s of [] \<Rightarrow> Inl (IndexError ''string index out of range'') | c # _ \<Rightarrow> Inr (PStr [c]))"
| "getitem_0 (PDict kvs) = Inl (KeyError ''0'')"
| "getitem_0 v = Inl (TypeError (quoted (type_name v) @ '' object is not subscriptable''))"

text \<open>\<open>data["choices"][0]["message"]["content"]\<close>\<close>

definition choice_content :: "pyval \<Rightarrow> exn + pyval" where
  "choice_content data =
     (case getitem_key data ''choices'' of
        Inl x \<Rightarrow> Inl x
      | Inr choices \<Rightarrow>
          (case getitem_0 choices of
             Inl x \<Rightarrow> Inl x
           | Inr choice \<Rightarrow>
               (case getitem_key choice ''message'' of
                  Inl x \<Rightarrow> Inl x
                | Inr msg \<Rightarrow> getitem_key msg ''content'')))"

text \<open>
  What follows a request that is not retried: \<open>raise RuntimeError\<close> unless the status is
  200, else the content of the first choice.
\<close>

definition read_response :: "http_response \<Rightarrow> exn + pyval" where
  "read_response resp =
     (if status resp \<noteq> 200 then
        (case text_body resp of
           Inl x \<Rightarrow> Inl x
         | Inr body \<Rightarrow>
             Inl (RuntimeError
                    (''Qwen3-VL request failed ('' @ int_str (status resp) @ ''): '' @ body)))
      else (case json_body resp of Inl x \<Rightarrow> Inl x | Inr data \<Rightarrow> choice_content data))"

definition text_messages :: "string \<Rightarrow> string \<Rightarrow> message list" where
  "text_messages system_prompt user_prompt =
     [\<lparr>role = ''system'', content = Text system_prompt\<rparr>,
      \<lparr>role = ''user'', content = Text user_prompt\<rparr>]"

text \<open>The user message and the request body that \<open>generate_text\<close> builds first.\<close>

definition user_message :: "string \<Rightarrow> string list \<Rightarrow> message" where
  "user_message user_prompt images =
     (if images \<noteq> []
      then \<lparr>role = ''user'',
             content = Parts (TextPart user_prompt
               # map (\<lambda>img_b64. ImageUrlPart (''data:image/png;base64,'' @ img_b64))
                   (filter (\<lambda>img_b64. img_b64 \<noteq> []) images))\<rparr>
      else \<lparr>role = ''user'', content = Text user_prompt\<rparr>)"

definition request_payload :: "Qwen3VL \<Rightarrow> message list \<Rightarrow> chat_payload" where
  "request_payload self msgs =
     \<lparr>model = served_model self, messages = msgs,
      temperature = qwen_temperature self, max_tokens = qwen_max_tokens self\<rparr>"

definition Qwen3VL_generate_text ::
  "Qwen3VL \<Rightarrow> (nat \<Rightarrow> string \<Rightarrow> chat_payload \<Rightarrow> exn + http_response)
     \<Rightarrow> string \<Rightarrow> string \<Rightarrow> string list \<Rightarrow> (exn + pyval) \<times> chat_payload list" where
  "Qwen3VL_generate_text self post system_prompt user_prompt images =
     (let messages0 =
            [\<lparr>role = ''system'', content = Text system_prompt\<rparr>,
             user_message user_prompt images];
          payload = request_payload self messages0;
          url = endpoint self @ ''/chat/completions''
      in case post 0 url payload of
           Inl x \<Rightarrow> (Inl x, [payload])
         | Inr resp \<Rightarrow>
             if status resp = 400 \<and> images \<noteq> [] then
               (let payload2 = payload\<lparr>messages := text_messages system_prompt user_prompt\<rparr>
                in case post 1 url payload2 of
                     Inl x \<Rightarrow> (Inl x, [payload, payload2])
                   | Inr resp2 \<Rightarrow> (read_response resp2, [payload, payload2]))
             else (read_response resp, [payload]))"

text \<open>
  A provider for the examples: it rejects the first request with status 400 and answers
  the second with the content \<open>ok\<close>.
\<close>

definition rejecting_once :: "nat \<Rightarrow> string \<Rightarrow> chat_payload \<Rightarrow> exn + http_response" where
  "rejecting_once n url payload =
     Inr \<lparr>status = (if n = 0 then 400 else 200),
          text_body = Inr ''unsupported'',
          json_body = Inr (PDict [(''choices'',
            PList [PDict [(''message'', PDict [(''content'', PStr ''ok'')])]])])\<rparr>"

definition local_qwen :: Qwen3VL where
  "local_qwen =
     \<lparr>model_name = ''Qwen/Qwen3-VL-30B-Instruct'', endpoint = ''http://localhost:8000/v1'',
      timeout_s = 300, qwen_temperature = 3 / 10, qwen_max_tokens = 2048,
      served_model = ''Qwen/Qwen3-VL-30B-Instruct''\<rparr>"

section \<open>Evaluator\<close>

text \<open>
  \<open>WorkflowState\<close> and \<open>EvaluatorAgent.evaluate\<close> of \<open>orchestrator.py\<close>. The two fields
  that share a name with a field of \<open>IterationContext\<close> carry the suffix \<open>_ws\<close>. The
  vision client is the parameter \<open>analyze_scene\<close>. \<open>quality_score\<close> and \<open>is_satisfied\<close>
  hold whatever the assignments of \<open>evaluate\<close> store in them.
\<close>

record WorkflowState =
  user_intent :: string
  current_iteration :: int
  max_iterations :: int
  satisfaction_threshold :: rat
  subtasks :: "pyval list"
  dependency_graph :: pydict
  blender_code :: string
  code_metadata :: pydict
  execution_result_ws :: pydict
  screenshot_base64 :: "string option"
  quality_score :: pyval
  visual_feedback_ws :: pydict
  is_satisfied :: pyval
  refinement_suggestions :: "string list"
  iteration_history :: "pyval list"
  conversation_history :: "pyval list"

text \<open>\<open>WorkflowState(user_intent)\<close>, every other field at its default.\<close>

definition WorkflowState_init :: "string \<Rightarrow> WorkflowState" where
  "WorkflowState_init intent =
     \<lparr>user_intent = intent, current_iteration = 0, max_iterations = 3,
      satisfaction_threshold = 3 / 4, subtasks = [], dependency_graph = [],
      blender_code = [], code_metadata = [], execution_result_ws = [],
      screenshot_base64 = None, quality_score = PFloat 0, visual_feedback_ws = [],
      is_satisfied = PBool False, refinement_suggestions = [], iteration_history = [],
      conversation_history = []\<rparr>"

fun num_value :: "pyval \<Rightarrow> rat option" where
  "num_value (PBool b) = Some (if b then 1 else 0)"
| "num_value (PInt i) = Some (of_int i)"
| "num_value (PFloat x) = Some x"
| "num_value v = None"

text \<open>\<open>v >= x\<close> for a float \<open>x\<close>.\<close>

definition ge_float :: "pyval \<Rightarrow> rat \<Rightarrow> exn + bool" where
  "ge_float v x =
     (case num_value v of
        Some y \<Rightarrow> Inr (y \<ge> x)
      | None \<Rightarrow>
          Inl (TypeError (quoted ''>='' @ '' not supported between instances of ''
                          @ quoted (type_name v) @ '' and '' @ quoted ''float'')))"

text \<open>The \<open>except Exception\<close> branch of \<open>evaluate\<close>.\<close>

definition evaluation_failed :: "WorkflowState \<Rightarrow> exn \<Rightarrow> WorkflowState" where
  "evaluation_failed state x =
     state\<lparr>quality_score := PFloat (1 / 2),
            visual_feedback_ws :=
              [(''error'', PStr (''Vision model evaluation failed: '' @ exn_str x)),
               (''issues'', PList [PStr ''Could not evaluate screenshot'']),
               (''specific_suggestions'', PList [])]\<rparr>"

definition evaluate ::
  "(string \<Rightarrow> string \<Rightarrow> int \<Rightarrow> int \<Rightarrow> pyval \<Rightarrow> exn + pyval)
     \<Rightarrow> WorkflowState \<Rightarrow> WorkflowState" where
  "evaluate analyze_scene state =
     (if \<not> truthy_str (screenshot_base64 state) then
        state\<lparr>quality_score := PFloat 0,
               visual_feedback_ws := [(''error'', PStr ''No screenshot available for evaluation'')]\<rparr>
      else
        (let previous_feedback =
               (if iteration_history state \<noteq> [] then last (iteration_history state) else PNone)
         in case analyze_scene (str_opt (screenshot_base64 state)) (user_intent state)
                   (current_iteration state) (max_iterations state) previous_feedback of
              Inl x \<Rightarrow> evaluation_failed state x
            | Inr (PDict eval_data) \<Rightarrow>
                (let state1 = state\<lparr>quality_score := dict_get eval_data ''overall_score'' (PFloat 0),
                                     visual_feedback_ws := eval_data\<rparr>
                 in case ge_float (quality_score state1) (satisfaction_threshold state1) of
                      Inl x \<Rightarrow> evaluation_failed state1 x
                    | Inr reached \<Rightarrow>
                        state1\<lparr>is_satisfied :=
                          (if reached then PBool True
                           else dict_get eval_data ''is_satisfactory'' (PBool False))\<rparr>)
            | Inr v \<Rightarrow>
                evaluation_failed state
                  (AttributeError (quoted (type_name v) @ '' object has no attribute ''
                                   @ quoted ''get''))))"

section \<open>Lemmas on the string primitives\<close>

lemma prefix_first_occ:
  assumes "sub \<noteq> []" and "\<not> sublist sub (pre @ butlast sub)" and "prefix sub (pre @ sub @ rest)"
  shows "pre = []"
proof (rule ccontr)
  assume "pre \<noteq> []"
  then have len: "length sub \<le> length (pre @ butlast sub)"
    by (cases pre) simp_all
  have "pre @ sub @ rest = (pre @ butlast sub) @ (last sub # rest)"
    using assms(1) by simp
  then have "prefix (pre @ butlast sub) (pre @ sub @ rest)"
    by (metis prefixI)
  with assms(3) len have "prefix sub (pre @ butlast sub)"
    using prefix_length_prefix by blast
  then show False
    using assms(2) by auto
qed

lemma find_aux_first:
  "sub \<noteq> [] \<Longrightarrow> \<not> sublist sub (pre @ butlast sub) \<Longrightarrow>
     find_aux sub (pre @ sub @ rest) i = i + int (length pre)"
proof (induction pre arbitrary: i)
  case Nil
  then show ?case by (cases sub) simp_all
next
  case (Cons c pre)
  have np: "\<not> prefix sub ((c # pre) @ sub @ rest)"
    using prefix_first_occ [OF Cons.prems(1) Cons.prems(2)] by blast
  have "\<not> sublist sub (pre @ butlast sub)"
    using Cons.prems(2) by (simp add: sublist_Cons_right)
  then have "find_aux sub (pre @ sub @ rest) (i + 1) = i + 1 + int (length pre)"
    using Cons.IH Cons.prems(1) by blast
  with np show ?case by simp
qed

lemma find_aux_neg: "\<not> sublist sub s \<Longrightarrow> find_aux sub s i = - 1"
  by (induction s arbitrary: i) (auto simp: sublist_Cons_right)

lemma find_aux_decomp:
  "sub \<noteq> [] \<Longrightarrow> find_aux sub s i \<noteq> - 1 \<Longrightarrow>
     \<exists>pre rest. s = pre @ sub @ rest \<and> \<not> sublist sub (pre @ butlast sub)"
proof (induction s arbitrary: i)
  case Nil
  then show ?case by simp
next
  case (Cons c cs)
  show ?case
  proof (cases "prefix sub (c # cs)")
    case True
    then obtain rest where "c # cs = sub @ rest"
      by (auto simp: prefix_def)
    moreover have "\<not> sublist sub (butlast sub)"
      using Cons.prems(1) by (metis length_butlast sublist_length_le diff_less length_greater_0_conv less_one not_le)
    ultimately show ?thesis
      by (metis append_Nil)
  next
    case False
    with Cons.prems have "find_aux sub cs (i + 1) \<noteq> - 1" by simp
    then obtain pre rest where d: "cs = pre @ sub @ rest" "\<not> sublist sub (pre @ butlast sub)"
      using Cons.IH Cons.prems(1) by blast
    have "\<not> prefix sub (c # pre @ butlast sub)"
    proof
      assume a: "prefix sub (c # pre @ butlast sub)"
      have "prefix (c # pre @ butlast sub) (c # cs)"
        using d(1) Cons.prems(1) by (metis append_butlast_last_id append.assoc prefixI Cons_prefix_Cons append_Cons)
      with a have "prefix sub (c # cs)" by (meson prefix_order.trans)
      with False show False by blast
    qed
    with d(2) have "\<not> sublist sub ((c # pre) @ butlast sub)"
      by (simp add: sublist_Cons_right)
    with d(1) show ?thesis
      by (metis append_Cons)
  qed
qed

lemma find_from_append:
  "find_from (pre @ rest) sub (int (length pre)) = find_aux sub rest (int (length pre))"
  by (simp add: find_from_def)

lemma find_from_0: "find_from s sub 0 = find_aux sub s 0"
  by (simp add: find_from_def)

lemma py_slice_mid:
  "py_slice (pre @ body @ rest) (Some (int (length pre))) (Some (int (length pre) + int (length body))) = body"
  by (simp add: py_slice_def Let_def)



lemma py_find_first:
  "sub \<noteq> [] \<Longrightarrow> \<not> sublist sub (pre @ butlast sub) \<Longrightarrow>
     py_find (pre @ sub @ rest) sub = int (length pre)"
  by (simp add: py_find_def find_from_0 find_aux_first)

lemma find_from_after:
  "find_from (pre @ tag @ rest) sub (int (length pre) + int (length tag))
     = find_aux sub rest (int (length pre) + int (length tag))"
  using find_from_append [of "pre @ tag" rest sub] by simp

lemma block_expr:
  assumes "fenced_block tag s pre body rest" and "tag \<noteq> []"
  shows "(let start = py_find s tag + int (length tag);
              end' = find_from s ''```'' start
          in if end' > start then strip (py_slice s (Some start) (Some end'))
             else strip s) = (if body = [] then strip s else strip body)"
proof -
  have s: "s = pre @ tag @ body @ ''```'' @ rest"
    and ft: "\<not> sublist tag (pre @ butlast tag)"
    and ff: "\<not> sublist ''```'' (body @ butlast ''```'')"
    using assms(1) by (simp_all add: fenced_block_def)
  have st: "py_find s tag = int (length pre)"
    unfolding s using assms(2) ft by (rule py_find_first)
  have en: "find_from s ''```'' (int (length pre) + int (length tag))
              = int (length pre) + int (length tag) + int (length body)"
    unfolding s find_from_after using ff by (subst find_aux_first) simp_all
  have sl: "py_slice s (Some (int (length pre) + int (length tag)))
              (Some (int (length pre) + int (length tag) + int (length body))) = body"
    using py_slice_mid [of "pre @ tag" body "''```'' @ rest"] by (simp add: s)
  show ?thesis
    by (simp add: Let_def st en sl)
qed

lemma unclosed_expr:
  assumes "unclosed_opener tag s pre rest" and "tag \<noteq> []"
  shows "(let start = py_find s tag + int (length tag);
              end' = find_from s ''```'' start
          in if end' > start then strip (py_slice s (Some start) (Some end'))
             else strip s) = strip s"
proof -
  have s: "s = pre @ tag @ rest"
    and ft: "\<not> sublist tag (pre @ butlast tag)"
    and ff: "\<not> sublist ''```'' rest"
    using assms(1) by (simp_all add: unclosed_opener_def)
  have st: "py_find s tag = int (length pre)"
    unfolding s using assms(2) ft by (rule py_find_first)
  have en: "find_from s ''```'' (int (length pre) + int (length tag)) = - 1"
    unfolding s find_from_after using ff by (rule find_aux_neg)
  show ?thesis
    by (simp add: Let_def st en)
qed

lemma find_aux_ge: "sublist sub s \<Longrightarrow> i \<le> find_aux sub s i"
proof (induction s arbitrary: i)
  case Nil
  then show ?case by simp
next
  case (Cons c cs)
  show ?case
  proof (cases "prefix sub (c # cs)")
    case True
    then show ?thesis by simp
  next
    case False
    with Cons.prems have "sublist sub cs"
      by (simp add: sublist_Cons_right)
    then have "i + 1 \<le> find_aux sub cs (i + 1)"
      by (rule Cons.IH)
    with False show ?thesis by simp
  qed
qed

lemma first_occurrence:
  assumes "sublist sub s" and "sub \<noteq> []"
  shows "\<exists>pre rest. s = pre @ sub @ rest \<and> \<not> sublist sub (pre @ butlast sub)"
proof -
  have "0 \<le> find_aux sub s 0"
    using assms(1) by (rule find_aux_ge)
  then have "find_aux sub s 0 \<noteq> - 1"
    by simp
  with assms(2) show ?thesis
    by (rule find_aux_decomp)
qed

lemma opener_cases:
  assumes "sublist tag s" and "tag \<noteq> []"
  shows "(\<exists>pre rest. unclosed_opener tag s pre rest)
           \<or> (\<exists>pre body rest. fenced_block tag s pre body rest)"
proof -
  obtain pre r where s: "s = pre @ tag @ r" and ft: "\<not> sublist tag (pre @ butlast tag)"
    using first_occurrence [OF assms] by blast
  show ?thesis
  proof (cases "sublist ''```'' r")
    case False
    with s ft have "unclosed_opener tag s pre r"
      by (simp add: unclosed_opener_def)
    then show ?thesis by blast
  next
    case True
    then obtain body rest where r: "r = body @ ''```'' @ rest"
      and ff: "\<not> sublist ''```'' (body @ butlast ''```'')"
      using first_occurrence [of "''```''" r] by blast
    from s r ft ff have "fenced_block tag s pre body rest"
      by (simp add: fenced_block_def)
    then show ?thesis by blast
  qed
qed

lemma fence_in_python_tag: "sublist ''```'' s" if "sublist ''```python'' s"
proof -
  have "sublist ''```'' ''```python''"
    by code_simp
  then show ?thesis
    using that by (rule sublist_order.order_trans)
qed

lemma fenced_block_sublist: "fenced_block tag s pre body rest \<Longrightarrow> sublist tag s"
  unfolding fenced_block_def sublist_def by blast

lemma unclosed_opener_sublist: "unclosed_opener tag s pre rest \<Longrightarrow> sublist tag s"
  unfolding unclosed_opener_def sublist_def by blast

lemma extract_python_block:
  assumes "fenced_block ''```python'' s pre body rest"
  shows "extract_code_from_response s = (if body = [] then strip s else strip body)"
proof -
  have "sublist ''```python'' s"
    using assms by (rule fenced_block_sublist)
  then show ?thesis
    unfolding extract_code_from_response_def
    using block_expr [OF assms] by simp
qed

lemma extract_generic_block:
  assumes "\<not> sublist ''```python'' s" and "fenced_block ''```'' s pre body rest"
  shows "extract_code_from_response s = (if body = [] then strip s else strip body)"
proof -
  have "sublist ''```'' s"
    using assms(2) by (rule fenced_block_sublist)
  then show ?thesis
    unfolding extract_code_from_response_def
    using block_expr [OF assms(2)] assms(1) by simp
qed

lemma extract_python_unclosed:
  assumes "unclosed_opener ''```python'' s pre rest"
  shows "extract_code_from_response s = strip s"
proof -
  have "sublist ''```python'' s"
    using assms by (rule unclosed_opener_sublist)
  then show ?thesis
    unfolding extract_code_from_response_def
    using unclosed_expr [OF assms] by simp
qed

lemma extract_generic_unclosed:
  assumes "\<not> sublist ''```python'' s" and "unclosed_opener ''```'' s pre rest"
  shows "extract_code_from_response s = strip s"
proof -
  have "sublist ''```'' s"
    using assms(2) by (rule unclosed_opener_sublist)
  then show ?thesis
    unfolding extract_code_from_response_def
    using unclosed_expr [OF assms(2)] assms(1) by simp
qed

lemma extract_no_fence:
  assumes "\<not> sublist ''```'' s"
  shows "extract_code_from_response s = strip s"
  using assms fence_in_python_tag by (auto simp: extract_code_from_response_def)

lemma extract_otherwise:
  assumes a: "\<forall>p b r. fenced_block ''```python'' s p b r \<longrightarrow> b = []"
    and b: "sublist ''```python'' s \<or> (\<forall>p b r. fenced_block ''```'' s p b r \<longrightarrow> b = [])"
  shows "extract_code_from_response s = strip s"
proof (cases "sublist ''```python'' s")
  case True
  then consider pre rest where "unclosed_opener ''```python'' s pre rest"
    | pre body rest where "fenced_block ''```python'' s pre body rest"
    using opener_cases [of "''```python''" s] by auto
  then show ?thesis
  proof cases
    case 1
    then show ?thesis by (rule extract_python_unclosed)
  next
    case 2
    with a have "body = []" by blast
    with extract_python_block [OF 2] show ?thesis by simp
  qed
next
  case np: False
  show ?thesis
  proof (cases "sublist ''```'' s")
    case False
    then show ?thesis by (rule extract_no_fence)
  next
    case True
    then consider pre rest where "unclosed_opener ''```'' s pre rest"
      | pre body rest where "fenced_block ''```'' s pre body rest"
      using opener_cases [of "''```''" s] by auto
    then show ?thesis
    proof cases
      case 1
      with np show ?thesis by (rule extract_generic_unclosed)
    next
      case 2
      with b np have "body = []" by blast
      with extract_generic_block [OF np 2] show ?thesis by simp
    qed
  qed
qed



lemma py_split_none: "sep \<noteq> [] \<Longrightarrow> \<not> sublist sep s \<Longrightarrow> py_split s sep = [s]"
  by (subst py_split.simps) (simp add: find_from_0 find_aux_neg)

lemma py_split_first:
  assumes "sep \<noteq> []" and "\<not> sublist sep (pre @ butlast sep)"
  shows "py_split (pre @ sep @ r) sep = pre # py_split r sep"
proof -
  have "find_from (pre @ sep @ r) sep 0 = int (length pre)"
    using assms by (simp add: find_from_0 find_aux_first)
  then show ?thesis
    using assms(1) by (subst py_split.simps) simp
qed

lemma before_first:
  "sep \<noteq> [] \<Longrightarrow> \<not> sublist sep (pre @ butlast sep) \<Longrightarrow> before sep (pre @ sep @ r) = pre"
  by (simp add: before_def py_find_first)

lemma before_none: "\<not> sublist sep s \<Longrightarrow> before sep s = s"
  by (simp add: before_def)

lemma py_split_hd:
  assumes "sep \<noteq> []"
  shows "py_index (py_split s sep) 0 = Inr (before sep s)"
proof (cases "sublist sep s")
  case False
  then show ?thesis
    using assms by (simp add: py_split_none before_none py_index_def)
next
  case True
  then obtain pre r where s: "s = pre @ sep @ r" and f: "\<not> sublist sep (pre @ butlast sep)"
    using first_occurrence [OF True assms] by blast
  show ?thesis
    unfolding s using assms f by (simp add: py_split_first before_first py_index_def)
qed

lemma py_split_second:
  assumes "sep \<noteq> []" and "\<not> sublist sep (pre @ butlast sep)"
  shows "py_index (py_split (pre @ sep @ r) sep) 1 = Inr (before sep r)"
proof -
  have "py_index (py_split r sep) 0 = Inr (before sep r)"
    using assms(1) by (rule py_split_hd)
  moreover have "py_split r sep \<noteq> []"
    using calculation by (auto simp: py_index_def split: if_splits)
  ultimately show ?thesis
    using assms by (cases "py_split r sep") (simp_all add: py_split_first py_index_def)
qed

lemma json_content_tagged:
  assumes "\<not> sublist ''```json'' (pre @ butlast ''```json'')"
  shows "json_content (pre @ ''```json'' @ r) = Inr (strip (before ''```'' (before ''```json'' r)))"
proof -
  have 1: "sublist ''```json'' (pre @ ''```json'' @ r)"
    by (rule sublist_appendI)
  have 2: "py_index (py_split (pre @ ''```json'' @ r) ''```json'') 1 = Inr (before ''```json'' r)"
    using assms by (intro py_split_second) simp_all
  have 3: "py_index (py_split (before ''```json'' r) ''```'') 0
             = Inr (before ''```'' (before ''```json'' r))"
    by (intro py_split_hd) simp
  show ?thesis
    unfolding json_content_def using 1 2 3 by (simp only: if_True sum.case)
qed



lemma sublist_single: "sublist [c] s \<longleftrightarrow> c \<in> set s"
  by (induction s) (auto simp: sublist_Cons_right)

lemma find_aux_char:
  "c \<notin> set pre \<Longrightarrow> find_aux [c] (pre @ c # post) i = i + int (length pre)"
  using find_aux_first [of "[c]" pre post i] by (simp add: sublist_single)

lemma rfind_aux_none: "c \<notin> set s \<Longrightarrow> rfind_aux [c] s i = - 1"
  by (induction s arbitrary: i) (auto simp: Let_def)

lemma rfind_aux_char:
  "0 \<le> i \<Longrightarrow> c \<notin> set post \<Longrightarrow> rfind_aux [c] (pre @ c # post) i = i + int (length pre)"
proof (induction pre arbitrary: i)
  case Nil
  then show ?case by (simp add: rfind_aux_none Let_def)
next
  case (Cons d pre)
  then have "rfind_aux [c] (pre @ c # post) (i + 1) = i + 1 + int (length pre)"
    by simp
  with Cons.prems(1) show ?case by (simp add: Let_def)
qed

lemma json_content_braces:
  assumes "\<not> sublist ''```json'' s" and "s = pre @ ''{'' @ mid @ ''}'' @ post"
    and "CHR ''{'' \<notin> set pre" and "CHR ''}'' \<notin> set post"
  shows "json_content s = Inr (''{'' @ mid @ ''}'')"
proof -
  have s1: "s = pre @ CHR ''{'' # (mid @ ''}'' @ post)" and s2: "s = (pre @ ''{'' @ mid) @ CHR ''}'' # post"
    using assms(2) by simp_all
  have f: "py_find s ''{'' = int (length pre)"
    unfolding py_find_def find_from_0 by (subst s1) (simp add: find_aux_char assms(3))
  have "rfind_aux ''}'' ((pre @ ''{'' @ mid) @ CHR ''}'' # post) 0
          = 0 + int (length (pre @ ''{'' @ mid))"
    by (rule rfind_aux_char) (simp_all add: assms(4))
  then have r: "py_rfind s ''}'' = int (length pre) + 1 + int (length mid)"
    unfolding py_rfind_def by (simp add: assms(2))
  have b: "sublist ''{'' s" "sublist ''}'' s"
    by (simp_all add: sublist_single assms(2))
  have sl: "py_slice s (Some (py_find s ''{'')) (Some (py_rfind s ''}'' + 1)) = ''{'' @ mid @ ''}''"
    unfolding f r using py_slice_mid [of pre "''{'' @ mid @ ''}''" post]
    by (simp add: assms(2) add.assoc)
  show ?thesis
    unfolding json_content_def using assms(1) b sl by (simp add: Let_def)
qed

lemma json_content_braces_crossed:
  assumes "\<not> sublist ''```json'' s" and "s = pre @ ''{'' @ post"
    and "CHR ''{'' \<notin> set pre" and "CHR ''}'' \<notin> set post" and "CHR ''}'' \<in> set pre"
  shows "json_content s = Inr []"
proof -
  obtain p1 p2 where pre: "pre = p1 @ CHR ''}'' # p2" and p2: "CHR ''}'' \<notin> set p2"
    using assms(5) split_list_last by fastforce
  have s1: "s = pre @ CHR ''{'' # post" and s2: "s = p1 @ CHR ''}'' # (p2 @ ''{'' @ post)"
    using assms(2) pre by simp_all
  have f: "py_find s ''{'' = int (length pre)"
    unfolding py_find_def find_from_0 by (subst s1) (simp add: find_aux_char assms(3))
  have "rfind_aux ''}'' (p1 @ CHR ''}'' # (p2 @ ''{'' @ post)) 0 = 0 + int (length p1)"
    by (rule rfind_aux_char) (simp_all add: assms(4) p2)
  then have r: "py_rfind s ''}'' = int (length p1)"
    unfolding py_rfind_def by (simp add: s2)
  have b: "sublist ''{'' s" "sublist ''}'' s"
    using assms(5) by (simp_all add: sublist_single assms(2))
  have sl: "py_slice s (Some (py_find s ''{'')) (Some (py_rfind s ''}'' + 1)) = []"
    unfolding f r by (simp add: py_slice_def Let_def pre assms(2))
  show ?thesis
    unfolding json_content_def using assms(1) b sl by (simp add: Let_def)
qed

lemma json_content_plain:
  assumes "\<not> sublist ''```json'' s" and "\<not> (sublist ''{'' s \<and> sublist ''}'' s)"
  shows "json_content s = Inr (strip s)"
  using assms by (auto simp: json_content_def)

lemma json_content_total: "\<exists>c. json_content s = Inr c"
proof (cases "sublist ''```json'' s")
  case True
  then obtain pre r where "s = pre @ ''```json'' @ r" "\<not> sublist ''```json'' (pre @ butlast ''```json'')"
    using first_occurrence [of "''```json''" s] by blast
  then show ?thesis
    using json_content_tagged by blast
next
  case False
  then show ?thesis
    by (simp add: json_content_def Let_def)
qed

lemma json_content_unclosed:
  assumes "unclosed_opener ''```json'' s pre rest"
  shows "json_content s = Inr (strip rest)"
proof -
  have s: "s = pre @ ''```json'' @ rest"
    and ft: "\<not> sublist ''```json'' (pre @ butlast ''```json'')"
    and ff: "\<not> sublist ''```'' rest"
    using assms(1) by (simp_all add: unclosed_opener_def)
  have "sublist ''```'' ''```json''"
    by code_simp
  then have "\<not> sublist ''```json'' rest"
    using ff sublist_order.order_trans by blast
  then have "before ''```json'' rest = rest"
    by (rule before_none)
  moreover have "before ''```'' rest = rest"
    using ff by (rule before_none)
  ultimately show ?thesis
    unfolding s using json_content_tagged [OF ft] by simp
qed



lemma before_fence_of_before_json:
  assumes ff: "\<not> sublist ''```'' (body @ ''``'')"
    and n1: "\<not> prefix ''`json'' rest" and n2: "\<not> prefix ''``json'' rest"
  shows "before ''```'' (before ''```json'' (body @ ''```'' @ rest)) = body"
proof (cases "sublist ''```json'' (body @ ''```'' @ rest)")
  case False
  then have "before ''```json'' (body @ ''```'' @ rest) = body @ ''```'' @ rest"
    by (rule before_none)
  moreover have "before ''```'' (body @ ''```'' @ rest) = body"
    using ff by (intro before_first) simp_all
  ultimately show ?thesis by simp
next
  case True
  then obtain p r' where eq: "body @ ''```'' @ rest = p @ ''```json'' @ r'"
    and fp: "\<not> sublist ''```json'' (p @ butlast ''```json'')"
    using first_occurrence [of "''```json''" "body @ ''```'' @ rest"] by blast
  have bp: "before ''```json'' (body @ ''```'' @ rest) = p"
    unfolding eq using fp by (intro before_first) simp_all
  have nb: "\<not> sublist ''```'' body"
    using ff by (metis sublist_append)
  from eq consider us where "body = p @ us" "us @ ''```'' @ rest = ''```json'' @ r'"
    | us where "body @ us = p" "''```'' @ rest = us @ ''```json'' @ r'"
    by (auto simp: append_eq_append_conv2)
  then have "before ''```'' p = body"
  proof cases
    case 1
    have "us = []"
    proof (rule ccontr)
      assume "us \<noteq> []"
      then have "prefix ''```'' (us @ ''``'')"
        using 1(2) by (cases us; cases "tl us"; cases "tl (tl us)") auto
      then have "sublist ''```'' (p @ us @ ''``'')"
        by (metis prefix_imp_sublist sublist_append)
      with ff 1(1) show False by simp
    qed
    with 1(1) nb show ?thesis by (simp add: before_none)
  next
    case 2
    have "us = [] \<or> prefix ''```'' us"
      using 2(2) n1 n2 by (cases us; cases "tl us"; cases "tl (tl us)") auto
    then show ?thesis
    proof
      assume "us = []"
      with 2(1) nb show ?thesis by (simp add: before_none)
    next
      assume "prefix ''```'' us"
      then obtain us' where "us = ''```'' @ us'"
        by (auto simp: prefix_def)
      with 2(1) have "p = body @ ''```'' @ us'" by simp
      moreover have "before ''```'' (body @ ''```'' @ us') = body"
        using ff by (intro before_first) simp_all
      ultimately show ?thesis by simp
    qed
  qed
  with bp show ?thesis by simp
qed



section \<open>Claims on the response parser\<close>



text \<open>
  C4, as stated: whenever a \<open>```python\<close> block is present, the text between its tag and
  the next fence is returned. The text \<open>```python```\<close> holds such a block, with nothing
  between the tag and the fence that closes it, and the code returns the whole text, not
  the empty content of the block.
\<close>

theorem extract_code_empty_block_counterexample:
  "fenced_block ''```python'' ''```python```'' [] [] []
   \<and> extract_code_from_response ''```python```'' = ''```python```''
   \<and> extract_code_from_response ''```python```'' \<noteq> strip []"
proof (intro conjI)
  show "fenced_block ''```python'' ''```python```'' [] [] []"
    unfolding fenced_block_def by code_simp
  show "extract_code_from_response ''```python```'' = ''```python```''"
    by code_simp
  show "extract_code_from_response ''```python```'' \<noteq> strip []"
    by code_simp
qed

text \<open>
  C4, amended: (a) when the first \<open>```python\<close> tag is followed by a later fence and the text
  between the two is not empty, the trimmed text between them is returned; (b) when no
  \<open>```python\<close> tag occurs and the first generic fence is followed by a later fence with a
  non-empty text between, that trimmed text is returned; (c) in every other case the trimmed
  whole input is returned. Only the first block counts: the text with the two blocks
  \<open>X\<close> and \<open>Y\<close> yields exactly \<open>X\<close>.
\<close>

theorem extract_code_search_order:
  "(fenced_block ''```python'' s pre body rest \<and> body \<noteq> []
      \<longrightarrow> extract_code_from_response s = strip body)
   \<and> (\<not> sublist ''```python'' s \<and> fenced_block ''```'' s pre body rest \<and> body \<noteq> []
      \<longrightarrow> extract_code_from_response s = strip body)
   \<and> ((\<forall>p b r. fenced_block ''```python'' s p b r \<longrightarrow> b = [])
        \<and> (sublist ''```python'' s \<or> (\<forall>p b r. fenced_block ''```'' s p b r \<longrightarrow> b = []))
      \<longrightarrow> extract_code_from_response s = strip s)
   \<and> extract_code_from_response
         ''```python\<newline>X\<newline>```\<newline>more\<newline>```python\<newline>Y\<newline>```'' = ''X''"
proof (intro conjI impI)
  assume "fenced_block ''```python'' s pre body rest \<and> body \<noteq> []"
  then show "extract_code_from_response s = strip body"
    using extract_python_block [of s pre body rest] by simp
next
  assume "\<not> sublist ''```python'' s \<and> fenced_block ''```'' s pre body rest \<and> body \<noteq> []"
  then show "extract_code_from_response s = strip body"
    using extract_generic_block [of s pre body rest] by simp
next
  assume "(\<forall>p b r. fenced_block ''```python'' s p b r \<longrightarrow> b = [])
          \<and> (sublist ''```python'' s \<or> (\<forall>p b r. fenced_block ''```'' s p b r \<longrightarrow> b = []))"
  then show "extract_code_from_response s = strip s"
    using extract_otherwise [of s] by blast
next
  show "extract_code_from_response
          ''```python\<newline>X\<newline>```\<newline>more\<newline>```python\<newline>Y\<newline>```'' = ''X''"
    by code_simp
qed

theorem extract_code_search_order_witness:
  "fenced_block ''```python'' ''a```python b ``` c'' ''a'' '' b '' '' c''
   \<and> extract_code_from_response ''a```python b ``` c'' = ''b''
   \<and> \<not> sublist ''```python'' ''a``` b ``` c''
   \<and> fenced_block ''```'' ''a``` b ``` c'' ''a'' '' b '' '' c''
   \<and> extract_code_from_response ''a``` b ``` c'' = ''b''
   \<and> \<not> sublist ''```python'' '' plain ''
   \<and> \<not> sublist ''```'' '' plain ''
   \<and> extract_code_from_response '' plain '' = ''plain''"
proof -
  have b1: "fenced_block ''```python'' ''a```python b ``` c'' ''a'' '' b '' '' c''"
    unfolding fenced_block_def by code_simp
  have n2: "\<not> sublist ''```python'' ''a``` b ``` c''"
    by code_simp
  have b2: "fenced_block ''```'' ''a``` b ``` c'' ''a'' '' b '' '' c''"
    unfolding fenced_block_def by code_simp
  have p3: "\<not> sublist ''```python'' '' plain ''" and p4: "\<not> sublist ''```'' '' plain ''"
    by code_simp+
  then have n3: "\<forall>p b r. fenced_block ''```python'' '' plain '' p b r \<longrightarrow> b = []"
    and n4: "\<forall>p b r. fenced_block ''```'' '' plain '' p b r \<longrightarrow> b = []"
    using fenced_block_sublist by blast+
  have s1: "strip '' b '' = ''b''" and s3: "strip '' plain '' = ''plain''"
    by code_simp+
  have ne: "'' b '' \<noteq> []"
    by simp
  have "extract_code_from_response ''a```python b ``` c'' = strip '' b ''"
    using extract_code_search_order [of "''a```python b ``` c''" "''a''" "'' b ''" "'' c''"] b1 ne
    by blast
  moreover have "extract_code_from_response ''a``` b ``` c'' = strip '' b ''"
    using extract_code_search_order [of "''a``` b ``` c''" "''a''" "'' b ''" "'' c''"] n2 b2 ne
    by blast
  moreover have "extract_code_from_response '' plain '' = strip '' plain ''"
    using extract_code_search_order [of "'' plain ''"] n3 n4 by blast
  ultimately show ?thesis
    using b1 n2 b2 p3 p4 unfolding s1 s3 by blast
qed




lemma json_content_block:
  assumes "fenced_block ''```json'' s pre body rest"
    and "\<not> prefix ''`json'' rest" and "\<not> prefix ''``json'' rest"
  shows "json_content s = Inr (strip body)"
proof -
  have s: "s = pre @ ''```json'' @ body @ ''```'' @ rest"
    and ft: "\<not> sublist ''```json'' (pre @ butlast ''```json'')"
    and ff: "\<not> sublist ''```'' (body @ ''``'')"
    using assms(1) by (simp_all add: fenced_block_def)
  have "before ''```'' (before ''```json'' (body @ ''```'' @ rest)) = body"
    using ff assms(2,3) by (rule before_fence_of_before_json)
  then show ?thesis
    unfolding s using json_content_tagged [OF ft, of "body @ ''```'' @ rest"] by simp
qed

text \<open>
  C5, as stated: the candidate is the content of the first \<open>```json\<close> block whenever one is
  present. In \<open>```json 1 ````json\<close> the first tag is closed by the fence that follows
  \<open>1\<close>, so the content of the block is \<open>1\<close>; the code cuts the text at the second
  \<open>```json\<close> tag first, which begins one character after that fence, and its candidate
  is \<open>1 `\<close>.
\<close>

theorem json_content_overlap_counterexample:
  "fenced_block ''```json'' ''```json 1 ````json'' [] '' 1 '' ''`json''
   \<and> json_content ''```json 1 ````json'' = Inr ''1 `''
   \<and> json_content ''```json 1 ````json'' \<noteq> Inr (strip '' 1 '')
   \<and> json_content ''```json 1 ````json'' \<noteq> Inr '' 1 ''"
proof (intro conjI)
  show "fenced_block ''```json'' ''```json 1 ````json'' [] '' 1 '' ''`json''"
    unfolding fenced_block_def by code_simp
  show "json_content ''```json 1 ````json'' = Inr ''1 `''"
    by code_simp
  show "json_content ''```json 1 ````json'' \<noteq> Inr (strip '' 1 '')"
    by code_simp
  show "json_content ''```json 1 ````json'' \<noteq> Inr '' 1 ''"
    by code_simp
qed

text \<open>
  C5, amended. The candidate is chosen in this order: (a) when the tag \<open>```json\<close> occurs,
  the trimmed text after the first tag up to the next fence, provided no further
  \<open>```json\<close> tag begins one or two characters after that fence, and the trimmed rest of
  the text when no fence follows the tag (a closing fence is not required); else (b) when
  both braces occur, the span from the first \<open>{\<close> to the last \<open>}\<close>, not brace-matched,
  which is empty when every \<open>}\<close> comes before the first \<open>{\<close>; else (c) the trimmed whole
  text. A candidate is always chosen, and the result is that of \<open>json.loads\<close> on it: the
  function fails exactly when the candidate does not parse. On
  \<open>prefix {"a":1} {"b":2} suffix\<close> the candidate is \<open>{"a":1} {"b":2}\<close>.
\<close>

theorem json_content_search_order:
  "(fenced_block ''```json'' s pre body rest
      \<and> \<not> prefix ''`json'' rest \<and> \<not> prefix ''``json'' rest
      \<longrightarrow> json_content s = Inr (strip body))
   \<and> (unclosed_opener ''```json'' s pre rest \<longrightarrow> json_content s = Inr (strip rest))
   \<and> (\<not> sublist ''```json'' s \<and> s = pre @ ''{'' @ body @ ''}'' @ rest
        \<and> CHR ''{'' \<notin> set pre \<and> CHR ''}'' \<notin> set rest
      \<longrightarrow> json_content s = Inr (''{'' @ body @ ''}''))
   \<and> (\<not> sublist ''```json'' s \<and> s = pre @ ''{'' @ rest
        \<and> CHR ''{'' \<notin> set pre \<and> CHR ''}'' \<notin> set rest \<and> CHR ''}'' \<in> set pre
      \<longrightarrow> json_content s = Inr [])
   \<and> (\<not> sublist ''```json'' s \<and> \<not> (sublist ''{'' s \<and> sublist ''}'' s)
      \<longrightarrow> json_content s = Inr (strip s))
   \<and> (\<exists>c. json_content s = Inr c \<and> extract_json_from_content json_loads s = json_loads c)
   \<and> json_content ''prefix {\"a\":1} {\"b\":2} suffix'' = Inr ''{\"a\":1} {\"b\":2}''"
proof (intro conjI impI)
  assume "fenced_block ''```json'' s pre body rest
          \<and> \<not> prefix ''`json'' rest \<and> \<not> prefix ''``json'' rest"
  then show "json_content s = Inr (strip body)"
    using json_content_block by blast
next
  assume "unclosed_opener ''```json'' s pre rest"
  then show "json_content s = Inr (strip rest)"
    by (rule json_content_unclosed)
next
  assume "\<not> sublist ''```json'' s \<and> s = pre @ ''{'' @ body @ ''}'' @ rest
          \<and> CHR ''{'' \<notin> set pre \<and> CHR ''}'' \<notin> set rest"
  then show "json_content s = Inr (''{'' @ body @ ''}'')"
    using json_content_braces [of s pre body rest] by blast
next
  assume "\<not> sublist ''```json'' s \<and> s = pre @ ''{'' @ rest
          \<and> CHR ''{'' \<notin> set pre \<and> CHR ''}'' \<notin> set rest \<and> CHR ''}'' \<in> set pre"
  then show "json_content s = Inr []"
    using json_content_braces_crossed [of s pre rest] by blast
next
  assume "\<not> sublist ''```json'' s \<and> \<not> (sublist ''{'' s \<and> sublist ''}'' s)"
  then show "json_content s = Inr (strip s)"
    using json_content_plain [of s] by blast
next
  obtain c where "json_content s = Inr c"
    using json_content_total by blast
  then show "\<exists>c. json_content s = Inr c \<and> extract_json_from_content json_loads s = json_loads c"
    by (simp add: extract_json_from_content_def)
next
  show "json_content ''prefix {\"a\":1} {\"b\":2} suffix'' = Inr ''{\"a\":1} {\"b\":2}''"
    by code_simp
qed

theorem json_content_search_order_witness:
  "fenced_block ''```json'' ''x```json {} ``` y'' ''x'' '' {} '' '' y''
   \<and> json_content ''x```json {} ``` y'' = Inr ''{}''
   \<and> unclosed_opener ''```json'' ''{} ```json [1] '' ''{} '' '' [1] ''
   \<and> json_content ''{} ```json [1] '' = Inr ''[1]''
   \<and> json_content ''x {1} y'' = Inr ''{1}''
   \<and> json_content ''} {'' = Inr []
   \<and> json_content '' 12 '' = Inr ''12''"
proof -
  have b1: "fenced_block ''```json'' ''x```json {} ``` y'' ''x'' '' {} '' '' y''"
    unfolding fenced_block_def by code_simp
  have o1: "\<not> prefix ''`json'' '' y''" "\<not> prefix ''``json'' '' y''"
    by simp_all
  have u2: "unclosed_opener ''```json'' ''{} ```json [1] '' ''{} '' '' [1] ''"
    unfolding unclosed_opener_def by code_simp
  have n3: "\<not> sublist ''```json'' ''x {1} y''"
    and n4: "\<not> sublist ''```json'' ''} {''"
    and n5: "\<not> sublist ''```json'' '' 12 ''"
    and n6: "\<not> (sublist ''{'' '' 12 '' \<and> sublist ''}'' '' 12 '')"
    by code_simp+
  have d3: "''x {1} y'' = ''x '' @ ''{'' @ ''1'' @ ''}'' @ '' y''"
    and d4: "''} {'' = ''} '' @ ''{'' @ []"
    by simp_all
  have m3: "CHR ''{'' \<notin> set ''x ''" "CHR ''}'' \<notin> set '' y''"
    and m4: "CHR ''{'' \<notin> set ''} ''" "CHR ''}'' \<notin> set []" "CHR ''}'' \<in> set ''} ''"
    by simp_all
  have s1: "strip '' {} '' = ''{}''" and s2: "strip '' [1] '' = ''[1]''"
    and s5: "strip '' 12 '' = ''12''"
    by code_simp+
  have "json_content ''x```json {} ``` y'' = Inr (strip '' {} '')"
    using json_content_search_order [of "''x```json {} ``` y''" "''x''" "'' {} ''" "'' y''"] b1 o1
    by blast
  moreover have "json_content ''{} ```json [1] '' = Inr (strip '' [1] '')"
    using json_content_search_order [of "''{} ```json [1] ''" "''{} ''" _ "'' [1] ''"] u2
    by blast
  moreover have "json_content ''x {1} y'' = Inr (''{'' @ ''1'' @ ''}'')"
    using json_content_search_order [of "''x {1} y''" "''x ''" "''1''" "'' y''"] n3 d3 m3
    by blast
  moreover have "json_content ''} {'' = Inr []"
    using json_content_search_order [of "''} {''" "''} ''" _ "[]"] n4 d4 m4
    by blast
  moreover have "json_content '' 12 '' = Inr (strip '' 12 '')"
    using json_content_search_order [of "'' 12 ''"] n5 n6 by blast
  ultimately show ?thesis
    using b1 u2 unfolding s1 s2 s5 by simp
qed

section \<open>Claims on the context memory\<close>

lemma history_appended_from:
  "history (foldl add_iteration m recs) = history m @ recs"
  by (induction recs arbitrary: m) (simp_all add: add_iteration_def)

lemma window_size_appended_from:
  "window_size (foldl add_iteration m recs) = window_size m"
  by (induction recs arbitrary: m) (simp_all add: add_iteration_def)

lemma history_appended: "history (appended k recs) = recs"
  by (simp add: appended_def history_appended_from VIGAMemory_init_def)

lemma window_size_appended: "window_size (appended k recs) = k"
  by (simp add: appended_def window_size_appended_from VIGAMemory_init_def)

lemma py_slice_tail:
  assumes "0 < k"
  shows "py_slice xs (Some (- k)) None = drop (length xs - nat k) xs"
proof (cases "k \<le> int (length xs)")
  case True
  with assms have "nat (int (length xs) - k) = length xs - nat k"
    by linarith
  with True assms show ?thesis
    by (simp add: py_slice_def Let_def max_def)
next
  case False
  then have "length xs - nat k = 0"
    by linarith
  with False assms show ?thesis
    by (simp add: py_slice_def Let_def max_def)
qed

text \<open>
  C6: for every window size \<open>k\<close> fixed at construction, a positive integer as the data
  model has it, and every list of \<open>n\<close> appended records, the context window has length
  \<open>min k n\<close> and is the last \<open>min k n\<close> appended records in their insertion order. The
  window is computed from the memory, which it leaves as the appends made it.
\<close>

theorem context_window_last_records:
  "0 < k \<longrightarrow>
     get_context_window (appended k recs)
       = drop (length recs - min (nat k) (length recs)) recs
     \<and> length (get_context_window (appended k recs)) = min (nat k) (length recs)
     \<and> history (appended k recs) = recs"
proof
  assume k: "0 < k"
  have w: "get_context_window (appended k recs) = drop (length recs - nat k) recs"
    using k by (simp add: get_context_window_def history_appended window_size_appended
        py_slice_tail)
  have "length recs - min (nat k) (length recs) = length recs - nat k"
    by simp
  with w show "get_context_window (appended k recs)
       = drop (length recs - min (nat k) (length recs)) recs
     \<and> length (get_context_window (appended k recs)) = min (nat k) (length recs)
     \<and> history (appended k recs) = recs"
    by (simp add: history_appended min_def)
qed

theorem context_window_last_records_witness:
  "(0::int) < 2
   \<and> get_context_window
        (appended 2 [IterationContext_init 0 None None, IterationContext_init 1 None None,
                     IterationContext_init 2 None None])
       = [IterationContext_init 1 None None, IterationContext_init 2 None None]
   \<and> length (get_context_window
        (appended 2 [IterationContext_init 0 None None, IterationContext_init 1 None None,
                     IterationContext_init 2 None None])) = 2"
  using context_window_last_records [of 2 "[IterationContext_init 0 None None,
    IterationContext_init 1 None None, IterationContext_init 2 None None]"]
  by simp

lemma first_code_none:
  "\<forall>ctx \<in> set xs. \<not> truthy_str (code ctx) \<Longrightarrow> first_code xs = []"
  by (induction xs) simp_all

lemma first_code_skip:
  "\<forall>x \<in> set newer. \<not> truthy_str (code x) \<Longrightarrow> first_code (newer @ rest) = first_code rest"
  by (induction newer) simp_all

text \<open>
  C7: the latest-code lookup returns the code of the newest record that carries a
  non-empty one, whatever the window size, and the empty text when no record does; it has
  no failing branch. After records with the codes \<open>None, a, None, b, None\<close> it returns
  \<open>b\<close>, after \<open>None, None\<close> the empty text, and with a window of one record it still
  finds a code that only the oldest of three records carries.
\<close>

theorem get_latest_code_newest_first:
  "((\<forall>ctx \<in> set (history m). \<not> truthy_str (code ctx)) \<longrightarrow> get_latest_code m = [])
   \<and> (history m = older @ [ctx] @ newer \<and> code ctx = Some c \<and> c \<noteq> []
        \<and> (\<forall>x \<in> set newer. \<not> truthy_str (code x))
      \<longrightarrow> get_latest_code m = c)
   \<and> get_latest_code (m\<lparr>window_size := k\<rparr>) = get_latest_code m
   \<and> get_latest_code
        (appended k [IterationContext_init 0 None None, IterationContext_init 1 None (Some ''a''),
                     IterationContext_init 2 None None, IterationContext_init 3 None (Some ''b''),
                     IterationContext_init 4 None None]) = ''b''
   \<and> get_latest_code
        (appended k [IterationContext_init 0 None None, IterationContext_init 1 None None]) = []
   \<and> get_latest_code
        (appended 1 [IterationContext_init 0 None (Some ''a''), IterationContext_init 1 None None,
                     IterationContext_init 2 None None]) = ''a''
   \<and> get_context_window
        (appended 1 [IterationContext_init 0 None (Some ''a''), IterationContext_init 1 None None,
                     IterationContext_init 2 None None]) = [IterationContext_init 2 None None]"
proof (intro conjI impI)
  assume "\<forall>ctx \<in> set (history m). \<not> truthy_str (code ctx)"
  then show "get_latest_code m = []"
    by (simp add: get_latest_code_def first_code_none)
next
  assume a: "history m = older @ [ctx] @ newer \<and> code ctx = Some c \<and> c \<noteq> []
             \<and> (\<forall>x \<in> set newer. \<not> truthy_str (code x))"
  then have "\<forall>x \<in> set (rev newer). \<not> truthy_str (code x)"
    by simp
  then have "first_code (rev newer @ ctx # rev older) = first_code (ctx # rev older)"
    by (rule first_code_skip)
  with a show "get_latest_code m = c"
    by (simp add: get_latest_code_def)
next
  show "get_latest_code (m\<lparr>window_size := k\<rparr>) = get_latest_code m"
    by (simp add: get_latest_code_def)
qed (simp_all add: get_latest_code_def get_context_window_def history_appended
       window_size_appended IterationContext_init_def py_slice_def)

theorem get_latest_code_newest_first_witness:
  "get_latest_code (appended 1 [IterationContext_init 0 None None]) = []
   \<and> get_latest_code
        (appended 1 [IterationContext_init 0 None (Some ''a''), IterationContext_init 1 None None])
       = ''a''"
proof -
  let ?r0 = "IterationContext_init 0 None None"
  let ?ra = "IterationContext_init 0 None (Some ''a'')"
  let ?r1 = "IterationContext_init 1 None None"
  have h1: "\<forall>ctx \<in> set (history (appended 1 [?r0])). \<not> truthy_str (code ctx)"
    by (simp add: history_appended IterationContext_init_def)
  have h2: "history (appended 1 [?ra, ?r1]) = [] @ [?ra] @ [?r1] \<and> code ?ra = Some ''a''
            \<and> ''a'' \<noteq> [] \<and> (\<forall>x \<in> set [?r1]. \<not> truthy_str (code x))"
    by (simp add: history_appended IterationContext_init_def)
  have "get_latest_code (appended 1 [?r0]) = []"
    using get_latest_code_newest_first [of "appended 1 [?r0]"] h1 by blast
  moreover have "get_latest_code (appended 1 [?ra, ?r1]) = ''a''"
    using get_latest_code_newest_first [of "appended 1 [?ra, ?r1]" "[]" ?ra "[?r1]" "''a''"] h2
    by blast
  ultimately show ?thesis
    by simp
qed

text \<open>
  C8, as stated: an append whose record has a sequence number other than the number of
  stored records fails and leaves the memory unchanged. \<open>add_iteration\<close> makes no check:
  the record numbered 5 is stored in the empty memory.
\<close>

theorem add_iteration_out_of_sequence_counterexample:
  "iteration_id (IterationContext_init 5 None None) \<noteq> int (length (history (VIGAMemory_init 3)))
   \<and> history (add_iteration (VIGAMemory_init 3) (IterationContext_init 5 None None))
       = [IterationContext_init 5 None None]
   \<and> add_iteration (VIGAMemory_init 3) (IterationContext_init 5 None None) \<noteq> VIGAMemory_init 3"
  by (simp add: add_iteration_def VIGAMemory_init_def IterationContext_init_def)

text \<open>
  C8, amended: appending a record adds it at the end of the history, whatever its sequence
  number, and changes nothing else of the memory; the operation checks nothing and has no
  failing branch.
\<close>

theorem add_iteration_appends:
  "history (add_iteration m r) = history m @ [r]
   \<and> length (history (add_iteration m r)) = Suc (length (history m))
   \<and> window_size (add_iteration m r) = window_size m
   \<and> static_context (add_iteration m r) = static_context m"
  by (simp add: add_iteration_def)

section \<open>Claims on the gateway and the evaluator\<close>

lemma read_response_failure:
  "status resp \<noteq> 200 \<Longrightarrow> \<exists>x. read_response resp = Inl x"
  by (cases "text_body resp") (simp_all add: read_response_def)

text \<open>
  C3: a call with a non-empty list of images whose first request is answered with status
  400 sends exactly one more request, with text-only messages, and its result is that of
  the second request alone: an exception of that request, or a status other than 200,
  surfaces as an error, and no third request is made. In every other case exactly one
  request is sent, and an answer whose status is not 200 is an error; with an empty list
  of images there is never a second request.
\<close>

theorem generate_text_retries_once:
  "(images \<noteq> []
      \<and> post 0 (endpoint self @ ''/chat/completions'')
            (request_payload self
               [\<lparr>role = ''system'', content = Text system_prompt\<rparr>,
                user_message user_prompt images]) = Inr resp
      \<and> status resp = 400
      \<longrightarrow> snd (Qwen3VL_generate_text self post system_prompt user_prompt images)
            = [request_payload self
                 [\<lparr>role = ''system'', content = Text system_prompt\<rparr>,
                  user_message user_prompt images],
               request_payload self (text_messages system_prompt user_prompt)]
          \<and> fst (Qwen3VL_generate_text self post system_prompt user_prompt images)
            = (case post 1 (endpoint self @ ''/chat/completions'')
                      (request_payload self (text_messages system_prompt user_prompt)) of
                 Inl x \<Rightarrow> Inl x
               | Inr resp2 \<Rightarrow> read_response resp2))
   \<and> (post 0 (endpoint self @ ''/chat/completions'')
            (request_payload self
               [\<lparr>role = ''system'', content = Text system_prompt\<rparr>,
                user_message user_prompt images]) = Inr resp
      \<and> \<not> (status resp = 400 \<and> images \<noteq> [])
      \<longrightarrow> length (snd (Qwen3VL_generate_text self post system_prompt user_prompt images)) = 1
          \<and> fst (Qwen3VL_generate_text self post system_prompt user_prompt images)
            = read_response resp)
   \<and> (post 0 (endpoint self @ ''/chat/completions'')
            (request_payload self
               [\<lparr>role = ''system'', content = Text system_prompt\<rparr>,
                user_message user_prompt images]) = Inl x
      \<longrightarrow> Qwen3VL_generate_text self post system_prompt user_prompt images
            = (Inl x,
               [request_payload self
                  [\<lparr>role = ''system'', content = Text system_prompt\<rparr>,
                   user_message user_prompt images]]))
   \<and> (status resp \<noteq> 200 \<longrightarrow> (\<exists>y. read_response resp = Inl y))
   \<and> (images = []
      \<longrightarrow> length (snd (Qwen3VL_generate_text self post system_prompt user_prompt images)) = 1)
   \<and> length (snd (Qwen3VL_generate_text self post system_prompt user_prompt images)) \<le> 2
   \<and> map content (text_messages system_prompt user_prompt)
       = [Text system_prompt, Text user_prompt]"
proof (intro conjI impI)
  show "status resp \<noteq> 200 \<Longrightarrow> \<exists>y. read_response resp = Inl y"
    by (rule read_response_failure)
qed (auto simp: Qwen3VL_generate_text_def Let_def request_payload_def text_messages_def
       split: sum.splits)

theorem generate_text_retries_once_witness:
  "Qwen3VL_generate_text local_qwen rejecting_once ''sys'' ''usr'' [''abc'']
     = (Inr (PStr ''ok''),
        [request_payload local_qwen
           [\<lparr>role = ''system'', content = Text ''sys''\<rparr>, user_message ''usr'' [''abc'']],
         request_payload local_qwen (text_messages ''sys'' ''usr'')])
   \<and> length (snd (Qwen3VL_generate_text local_qwen rejecting_once ''sys'' ''usr'' [])) = 1
   \<and> (\<exists>y. fst (Qwen3VL_generate_text local_qwen rejecting_once ''sys'' ''usr'' []) = Inl y)"
proof -
  let ?url = "endpoint local_qwen @ ''/chat/completions''"
  let ?resp0 = "\<lparr>status = 400, text_body = Inr ''unsupported'',
                  json_body = Inr (PDict [(''choices'',
                    PList [PDict [(''message'', PDict [(''content'', PStr ''ok'')])]])])\<rparr>"
  let ?p = "\<lambda>images. request_payload local_qwen
              [\<lparr>role = ''system'', content = Text ''sys''\<rparr>, user_message ''usr'' images]"
  have p0: "rejecting_once 0 ?url (?p images) = Inr ?resp0" for images
    by (simp add: rejecting_once_def)
  have st: "status ?resp0 = 400" and st': "status ?resp0 \<noteq> 200"
    by simp_all
  have second: "(case rejecting_once 1 ?url (request_payload local_qwen (text_messages ''sys'' ''usr'')) of
                   Inl x \<Rightarrow> Inl x | Inr resp2 \<Rightarrow> read_response resp2) = Inr (PStr ''ok'')"
    by (simp add: rejecting_once_def read_response_def choice_content_def)
  have ne: "[''abc''] \<noteq> ([] :: string list)"
    by simp
  have a: "snd (Qwen3VL_generate_text local_qwen rejecting_once ''sys'' ''usr'' [''abc''])
             = [?p [''abc''], request_payload local_qwen (text_messages ''sys'' ''usr'')]
           \<and> fst (Qwen3VL_generate_text local_qwen rejecting_once ''sys'' ''usr'' [''abc''])
             = Inr (PStr ''ok'')"
    using generate_text_retries_once [of "[''abc'']" rejecting_once local_qwen "''sys''" "''usr''" ?resp0]
      p0 [of "[''abc'']"] st ne second by simp
  have nr: "\<not> (status ?resp0 = 400 \<and> ([] :: string list) \<noteq> [])"
    by simp
  have b: "length (snd (Qwen3VL_generate_text local_qwen rejecting_once ''sys'' ''usr'' [])) = 1
           \<and> fst (Qwen3VL_generate_text local_qwen rejecting_once ''sys'' ''usr'' [])
             = read_response ?resp0"
    using generate_text_retries_once [of "[]" rejecting_once local_qwen "''sys''" "''usr''" ?resp0]
      p0 [of "[]"] nr by blast
  have c: "\<exists>y. read_response ?resp0 = Inl y"
    using generate_text_retries_once [of _ _ _ _ _ ?resp0] st' by blast
  from a have "Qwen3VL_generate_text local_qwen rejecting_once ''sys'' ''usr'' [''abc'']
     = (Inr (PStr ''ok''),
        [?p [''abc''], request_payload local_qwen (text_messages ''sys'' ''usr'')])"
    by (simp add: prod_eq_iff)
  with b c show ?thesis
    by simp
qed

lemma evaluate_result:
  assumes "truthy_str (screenshot_base64 state)"
    and "analyze_scene (str_opt (screenshot_base64 state)) (user_intent state)
           (current_iteration state) (max_iterations state)
           (if iteration_history state \<noteq> [] then last (iteration_history state) else PNone)
         = Inr (PDict eval_data)"
    and "num_value (dict_get eval_data ''overall_score'' (PFloat 0)) = Some score"
  shows "evaluate analyze_scene state
           = state\<lparr>quality_score := dict_get eval_data ''overall_score'' (PFloat 0),
                   visual_feedback_ws := eval_data,
                   is_satisfied :=
                     (if score \<ge> satisfaction_threshold state then PBool True
                      else dict_get eval_data ''is_satisfactory'' (PBool False))\<rparr>"
  using assms by (simp add: evaluate_def Let_def ge_float_def)

text \<open>
  C9: when the vision client returns an evaluation whose overall score is a number (0.0
  when the entry is missing), the satisfaction flag that \<open>evaluate\<close> stores is true exactly
  when the score reaches the threshold or the evaluation's own \<open>is_satisfactory\<close> entry
  is true: either condition suffices. A score of 0.80 at the default threshold 0.75 is
  satisfactory though the evaluation's own flag is false.
\<close>

theorem evaluate_satisfaction_is_or:
  "truthy_str (screenshot_base64 state)
   \<and> analyze_scene (str_opt (screenshot_base64 state)) (user_intent state)
        (current_iteration state) (max_iterations state)
        (if iteration_history state \<noteq> [] then last (iteration_history state) else PNone)
      = Inr (PDict eval_data)
   \<and> num_value (dict_get eval_data ''overall_score'' (PFloat 0)) = Some score
   \<longrightarrow> truthy (is_satisfied (evaluate analyze_scene state))
         = (score \<ge> satisfaction_threshold state
            \<or> truthy (dict_get eval_data ''is_satisfactory'' (PBool False)))
       \<and> (dict_get eval_data ''is_satisfactory'' (PBool False) = PBool flag
          \<longrightarrow> is_satisfied (evaluate analyze_scene state)
                = PBool (score \<ge> satisfaction_threshold state \<or> flag))
       \<and> quality_score (evaluate analyze_scene state)
         = dict_get eval_data ''overall_score'' (PFloat 0)"
proof (intro impI)
  assume a: "truthy_str (screenshot_base64 state)
   \<and> analyze_scene (str_opt (screenshot_base64 state)) (user_intent state)
        (current_iteration state) (max_iterations state)
        (if iteration_history state \<noteq> [] then last (iteration_history state) else PNone)
      = Inr (PDict eval_data)
   \<and> num_value (dict_get eval_data ''overall_score'' (PFloat 0)) = Some score"
  have "evaluate analyze_scene state
           = state\<lparr>quality_score := dict_get eval_data ''overall_score'' (PFloat 0),
                   visual_feedback_ws := eval_data,
                   is_satisfied :=
                     (if score \<ge> satisfaction_threshold state then PBool True
                      else dict_get eval_data ''is_satisfactory'' (PBool False))\<rparr>"
    using a by (intro evaluate_result) simp_all
  then show "truthy (is_satisfied (evaluate analyze_scene state))
         = (score \<ge> satisfaction_threshold state
            \<or> truthy (dict_get eval_data ''is_satisfactory'' (PBool False)))
       \<and> (dict_get eval_data ''is_satisfactory'' (PBool False) = PBool flag
          \<longrightarrow> is_satisfied (evaluate analyze_scene state)
                = PBool (score \<ge> satisfaction_threshold state \<or> flag))
       \<and> quality_score (evaluate analyze_scene state)
         = dict_get eval_data ''overall_score'' (PFloat 0)"
    by simp
qed

theorem evaluate_satisfaction_is_or_witness:
  "is_satisfied
     (evaluate (\<lambda>screenshot intent i n previous.
                  Inr (PDict [(''overall_score'', PFloat (4 / 5)),
                              (''is_satisfactory'', PBool False)]))
        ((WorkflowState_init ''cube'')\<lparr>screenshot_base64 := Some ''img''\<rparr>)) = PBool True
   \<and> is_satisfied
     (evaluate (\<lambda>screenshot intent i n previous.
                  Inr (PDict [(''overall_score'', PFloat (1 / 5)),
                              (''is_satisfactory'', PBool True)]))
        ((WorkflowState_init ''cube'')\<lparr>screenshot_base64 := Some ''img''\<rparr>)) = PBool True
   \<and> is_satisfied
     (evaluate (\<lambda>screenshot intent i n previous.
                  Inr (PDict [(''overall_score'', PFloat (1 / 5)),
                              (''is_satisfactory'', PBool False)]))
        ((WorkflowState_init ''cube'')\<lparr>screenshot_base64 := Some ''img''\<rparr>)) = PBool False"
proof -
  let ?st = "(WorkflowState_init ''cube'')\<lparr>screenshot_base64 := Some ''img''\<rparr>"
  let ?an = "\<lambda>d. (\<lambda>(screenshot :: string) (intent :: string) (i :: int) (n :: int)
                 (previous :: pyval). (Inr (PDict d) :: exn + pyval))"
  have thr: "satisfaction_threshold ?st = 3 / 4"
    by (simp add: WorkflowState_init_def)
  have h: "truthy_str (screenshot_base64 ?st)
     \<and> ?an d (str_opt (screenshot_base64 ?st)) (user_intent ?st)
          (current_iteration ?st) (max_iterations ?st)
          (if iteration_history ?st \<noteq> [] then last (iteration_history ?st) else PNone)
        = Inr (PDict d)" for d
    by simp
  have "is_satisfied (evaluate (?an [(''overall_score'', PFloat (4 / 5)),
                                     (''is_satisfactory'', PBool False)]) ?st)
          = PBool (4 / 5 \<ge> satisfaction_threshold ?st \<or> False)"
    using evaluate_satisfaction_is_or [of ?st "?an [(''overall_score'', PFloat (4 / 5)),
        (''is_satisfactory'', PBool False)]" "[(''overall_score'', PFloat (4 / 5)),
        (''is_satisfactory'', PBool False)]" "4 / 5" False] h
    by (simp add: dict_get_def)
  moreover have "is_satisfied (evaluate (?an [(''overall_score'', PFloat (1 / 5)),
                                     (''is_satisfactory'', PBool True)]) ?st)
          = PBool (1 / 5 \<ge> satisfaction_threshold ?st \<or> True)"
    using evaluate_satisfaction_is_or [of ?st "?an [(''overall_score'', PFloat (1 / 5)),
        (''is_satisfactory'', PBool True)]" "[(''overall_score'', PFloat (1 / 5)),
        (''is_satisfactory'', PBool True)]" "1 / 5" True] h
    by (simp add: dict_get_def)
  moreover have "is_satisfied (evaluate (?an [(''overall_score'', PFloat (1 / 5)),
                                     (''is_satisfactory'', PBool False)]) ?st)
          = PBool (1 / 5 \<ge> satisfaction_threshold ?st \<or> False)"
    using evaluate_satisfaction_is_or [of ?st "?an [(''overall_score'', PFloat (1 / 5)),
        (''is_satisfactory'', PBool False)]" "[(''overall_score'', PFloat (1 / 5)),
        (''is_satisfactory'', PBool False)]" "1 / 5" False] h
    by (simp add: dict_get_def)
  ultimately show ?thesis
    unfolding thr by simp
qed

section \<open>Claims on the loop controller\<close>

lemma generate_step_id:
  "generate_step e task memory t = Inr ctx \<Longrightarrow> iteration_id ctx = int t"
  by (auto simp: generate_step_def Let_def IterationContext_init_def split: sum.splits)

lemma iteration_shape:
  assumes "iteration e task t memory = Inr (memory', stop)"
  shows "\<exists>r. memory' = add_iteration memory r \<and> stop = has_sentinel r \<and> iteration_id r = int t"
proof -
  obtain ctx where g: "generate_step e task memory t = Inr ctx"
    using assms by (auto simp: iteration_def split: sum.splits)
  then have "iteration_id ctx = int t"
    by (rule generate_step_id)
  with assms g show ?thesis
    by (auto simp: iteration_def Let_def has_sentinel_def split: sum.splits if_splits)
qed

lemma iteration_success:
  assumes "iteration_succeeds e task t stop"
  shows "\<exists>r. iteration e task t memory = Inr (add_iteration memory r, stop) \<and> iteration_id r = int t"
proof -
  obtain ctx where g: "generate_step e task memory t = Inr ctx"
    using assms unfolding iteration_succeeds_def by blast
  obtain r where x: "mcp_execute_code e t (code ctx) = Inr r"
    and ok: "dict_get r ''status'' PNone \<noteq> PStr ''error''"
    using assms unfolding iteration_succeeds_def by metis
  let ?ctx1 = "ctx\<lparr>execution_result := Some (py_str (float_repr e) (PDict r))\<rparr>"
  obtain fb where v: "verify_step e t task ?ctx1 = Inr fb"
    and s: "sublist ''OBJECTIVE COMPLETE'' fb = stop"
    using assms unfolding iteration_succeeds_def by metis
  have "iteration e task t memory
          = Inr (add_iteration memory (?ctx1\<lparr>visual_feedback := Some fb\<rparr>), stop)"
    using g x ok v s by (simp add: iteration_def Let_def)
  moreover have "iteration_id (?ctx1\<lparr>visual_feedback := Some fb\<rparr>) = int t"
    using generate_step_id [OF g] by simp
  ultimately show ?thesis
    by blast
qed

lemma iteration_host_error:
  assumes "generate_step e task memory t = Inr ctx"
    and "mcp_execute_code e t (code ctx) = Inr r"
    and "dict_get r ''status'' PNone = PStr ''error''"
  shows "iteration e task t memory
           = Inr (add_iteration memory
                    (ctx\<lparr>execution_result := Some (py_str (float_repr e) (PDict r)),
                         visual_feedback :=
                           Some (''Execution Error: ''
                                 @ py_str (float_repr e) (dict_get r ''errors'' PNone))\<rparr>),
                  sublist ''OBJECTIVE COMPLETE''
                    (''Execution Error: '' @ py_str (float_repr e) (dict_get r ''errors'' PNone)))"
  using assms by (simp add: iteration_def Let_def)

lemma py_str_dict_nonempty: "py_str fr (PDict r) \<noteq> []"
  by (simp add: py_str_def)

lemma loop_continues:
  assumes "\<forall>t \<in> set ts. iteration_succeeds e task t False"
  shows "\<exists>recs. loop e task (ts @ rest) memory = loop e task rest (foldl add_iteration memory recs)
           \<and> map iteration_id recs = map int ts"
  using assms
proof (induction ts arbitrary: memory)
  case Nil
  have "loop e task ([] @ rest) memory = loop e task rest (foldl add_iteration memory [])
          \<and> map iteration_id [] = map int []"
    by simp
  then show ?case by blast
next
  case (Cons t ts)
  obtain r where r: "iteration e task t memory = Inr (add_iteration memory r, False)"
    and rid: "iteration_id r = int t"
    using iteration_success [of e task t False memory] Cons.prems by auto
  obtain recs where recs: "loop e task (ts @ rest) (add_iteration memory r)
        = loop e task rest (foldl add_iteration (add_iteration memory r) recs)"
    and ids: "map iteration_id recs = map int ts"
    using Cons.IH [of "add_iteration memory r"] Cons.prems by auto
  have "loop e task ((t # ts) @ rest) memory = loop e task rest (foldl add_iteration memory (r # recs))
          \<and> map iteration_id (r # recs) = map int (t # ts)"
    using r rid recs ids by simp
  then show ?case by blast
qed

lemma loop_stops:
  assumes "iteration_succeeds e task k True"
  shows "\<exists>r. loop e task (k # rest) memory = (None, add_iteration memory r) \<and> iteration_id r = int k"
proof -
  obtain r where "iteration e task k memory = Inr (add_iteration memory r, True)"
    and "iteration_id r = int k"
    using iteration_success [OF assms, of memory] by auto
  then have "loop e task (k # rest) memory = (None, add_iteration memory r) \<and> iteration_id r = int k"
    by simp
  then show ?thesis by blast
qed

lemma loop_converges:
  assumes "\<forall>t \<in> set ts. iteration_succeeds e task t False"
    and "iteration_succeeds e task k True"
  shows "\<exists>recs. loop e task (ts @ k # rest) memory = (None, foldl add_iteration memory recs)
           \<and> map iteration_id recs = map int (ts @ [k])"
proof -
  obtain recs where a: "loop e task (ts @ k # rest) memory
        = loop e task (k # rest) (foldl add_iteration memory recs)"
    and ids: "map iteration_id recs = map int ts"
    using loop_continues [OF assms(1), of "k # rest" memory] by auto
  obtain r where b: "loop e task (k # rest) (foldl add_iteration memory recs)
        = (None, add_iteration (foldl add_iteration memory recs) r)"
    and rid: "iteration_id r = int k"
    using loop_stops [OF assms(2), of rest "foldl add_iteration memory recs"] by auto
  have "loop e task (ts @ k # rest) memory = (None, foldl add_iteration memory (recs @ [r]))
          \<and> map iteration_id (recs @ [r]) = map int (ts @ [k])"
    using a b ids rid by simp
  then show ?thesis by blast
qed

lemma loop_exhausts:
  assumes "\<forall>t \<in> set ts. iteration_succeeds e task t False"
  shows "\<exists>recs. loop e task ts memory = (None, foldl add_iteration memory recs)
           \<and> map iteration_id recs = map int ts"
  using loop_continues [OF assms, of "[]" memory] by simp

lemma loop_trace:
  "\<exists>recs. snd (loop e task ts memory) = foldl add_iteration memory recs
     \<and> length recs \<le> length ts
     \<and> (\<forall>i. Suc i < length recs \<longrightarrow> \<not> has_sentinel (recs ! i))
     \<and> (fst (loop e task ts memory) = None \<and> length recs < length ts
          \<longrightarrow> recs \<noteq> [] \<and> has_sentinel (last recs))"
proof (induction ts arbitrary: memory)
  case Nil
  have "snd (loop e task [] memory) = foldl add_iteration memory []"
    by simp
  then show ?case
    by (intro exI [of _ "[]"]) simp
next
  case (Cons t ts)
  show ?case
  proof (cases "iteration e task t memory")
    case (Inl x)
    then have "loop e task (t # ts) memory = (Some x, memory)"
      by simp
    then show ?thesis
      by (intro exI [of _ "[]"]) simp
  next
    case (Inr res)
    obtain memory' stop where res: "res = (memory', stop)"
      by (cases res)
    obtain r where m': "memory' = add_iteration memory r" and st: "stop = has_sentinel r"
      using iteration_shape Inr res by blast
    show ?thesis
    proof (cases stop)
      case True
      then have "loop e task (t # ts) memory = (None, foldl add_iteration memory [r])"
        using Inr res m' by simp
      then show ?thesis
        using True st by (intro exI [of _ "[r]"]) simp
    next
      case False
      then have step: "loop e task (t # ts) memory = loop e task ts (add_iteration memory r)"
        using Inr res m' by simp
      obtain recs where recs: "snd (loop e task ts (add_iteration memory r))
            = foldl add_iteration (add_iteration memory r) recs"
        and len: "length recs \<le> length ts"
        and quiet: "\<forall>i. Suc i < length recs \<longrightarrow> \<not> has_sentinel (recs ! i)"
        and last: "fst (loop e task ts (add_iteration memory r)) = None \<and> length recs < length ts
          \<longrightarrow> recs \<noteq> [] \<and> has_sentinel (last recs)"
        using Cons.IH [of "add_iteration memory r"] by blast
      have q: "\<forall>i. Suc i < length (r # recs) \<longrightarrow> \<not> has_sentinel ((r # recs) ! i)"
      proof (intro allI impI)
        fix i
        assume i: "Suc i < length (r # recs)"
        show "\<not> has_sentinel ((r # recs) ! i)"
        proof (cases i)
          case 0
          with False st show ?thesis by simp
        next
          case (Suc j)
          with i quiet show ?thesis by simp
        qed
      qed
      have "snd (loop e task (t # ts) memory) = foldl add_iteration memory (r # recs)"
        using step recs by simp
      moreover have "length (r # recs) \<le> length (t # ts)"
        using len by simp
      moreover have "fst (loop e task (t # ts) memory) = None \<and> length (r # recs) < length (t # ts)
          \<longrightarrow> r # recs \<noteq> [] \<and> has_sentinel (last (r # recs))"
        using step last by auto
      ultimately show ?thesis
        using q by blast
    qed
  qed
qed

lemma upt_split:
  assumes "k < n"
  shows "[0..<n] = [0..<k] @ k # [Suc k..<n]"
proof -
  have "[0..<k + (n - k)] = [0..<k] @ [k..<k + (n - k)]"
    by (rule upt_add_eq_append) simp
  then have "[0..<n] = [0..<k] @ [k..<n]"
    using assms by simp
  then show ?thesis
    using assms by (simp add: upt_conv_Cons)
qed

lemma run_loop_converges:
  assumes "\<forall>t<k. iteration_succeeds e task t False"
    and "iteration_succeeds e task k True" and "int k < n"
  shows "fst (run_loop e task n m) = None
     \<and> (\<exists>recs. history (snd (run_loop e task n m)) = history m @ recs
           \<and> map iteration_id recs = map int [0..<Suc k])"
proof -
  have k: "k < nat n"
    using assms(3) by linarith
  have quiet: "\<forall>t \<in> set [0..<k]. iteration_succeeds e task t False"
    using assms(1) by simp
  let ?m0 = "m\<lparr>static_context := (static_context m)(''task'' \<mapsto> task)\<rparr>"
  obtain recs where "loop e task ([0..<k] @ k # [Suc k..<nat n]) ?m0
        = (None, foldl add_iteration ?m0 recs)"
    and ids: "map iteration_id recs = map int ([0..<k] @ [k])"
    using loop_converges [OF quiet assms(2)] by blast
  then have run: "run_loop e task n m = (None, foldl add_iteration ?m0 recs)"
    unfolding run_loop_def using upt_split [OF k] by simp
  have "history (snd (run_loop e task n m)) = history m @ recs"
    unfolding run by (simp add: history_appended_from)
  with run ids show ?thesis
    by auto
qed

lemma run_loop_exhausts:
  assumes "\<forall>t. int t < n \<longrightarrow> iteration_succeeds e task t False"
  shows "fst (run_loop e task n m) = None
     \<and> length (history (snd (run_loop e task n m))) = length (history m) + nat n"
proof -
  have quiet: "\<forall>t \<in> set [0..<nat n]. iteration_succeeds e task t False"
    using assms by auto
  let ?m0 = "m\<lparr>static_context := (static_context m)(''task'' \<mapsto> task)\<rparr>"
  obtain recs where run: "loop e task [0..<nat n] ?m0 = (None, foldl add_iteration ?m0 recs)"
    and ids: "map iteration_id recs = map int [0..<nat n]"
    using loop_exhausts [OF quiet] by blast
  have "length recs = nat n"
    using ids by (metis length_map length_upt diff_zero)
  then show ?thesis
    unfolding run_loop_def run by (simp add: history_appended_from)
qed

lemma run_loop_trace:
  "\<exists>recs. history (snd (run_loop e task n m)) = history m @ recs
     \<and> length recs \<le> nat n
     \<and> (\<forall>i. Suc i < length recs \<longrightarrow> \<not> has_sentinel (recs ! i))
     \<and> (fst (run_loop e task n m) = None \<and> length recs < nat n
          \<longrightarrow> recs \<noteq> [] \<and> has_sentinel (last recs))"
proof -
  let ?m0 = "m\<lparr>static_context := (static_context m)(''task'' \<mapsto> task)\<rparr>"
  obtain recs where a: "snd (loop e task [0..<nat n] ?m0) = foldl add_iteration ?m0 recs"
    and b: "length recs \<le> length [0..<nat n]"
    and c: "\<forall>i. Suc i < length recs \<longrightarrow> \<not> has_sentinel (recs ! i)"
    and d: "fst (loop e task [0..<nat n] ?m0) = None \<and> length recs < length [0..<nat n]
          \<longrightarrow> recs \<noteq> [] \<and> has_sentinel (last recs)"
    using loop_trace [of e task "[0..<nat n]" ?m0] by blast
  have "history (snd (run_loop e task n m)) = history m @ recs"
    unfolding run_loop_def a by (simp add: history_appended_from)
  moreover have "length recs \<le> nat n"
    using b by simp
  moreover have "fst (run_loop e task n m) = None \<and> length recs < nat n
          \<longrightarrow> recs \<noteq> [] \<and> has_sentinel (last recs)"
    using d by (simp add: run_loop_def)
  ultimately show ?thesis
    using c by blast
qed

text \<open>
  C1: with at most 5 iterations, when the collaborators return in iterations 0, 1 and 2,
  the host reports success there and the verifier's feedback carries the sentinel in
  iteration 2 for the first time, the loop returns with exactly 3 more records in the
  memory. In general: when the sentinel comes first in iteration \<open>k\<close>, below the maximum,
  the loop returns with the records of the iterations \<open>0, \<dots>, k\<close>; when it never comes,
  with one record for each of the \<open>max_iterations\<close> iterations; and in every run the
  records appended are at most \<open>max_iterations\<close>, none but the last carries the sentinel,
  and a run that returns with fewer than \<open>max_iterations\<close> records ends on a record that
  carries it.
\<close>

theorem run_loop_stops_at_sentinel_or_maximum:
  "((\<forall>t<2. iteration_succeeds e task t False) \<and> iteration_succeeds e task 2 True
      \<longrightarrow> fst (run_loop e task 5 m) = None
          \<and> length (history (snd (run_loop e task 5 m))) = length (history m) + 3
          \<and> map iteration_id (drop (length (history m)) (history (snd (run_loop e task 5 m))))
            = [0, 1, 2])
   \<and> ((\<forall>t<k. iteration_succeeds e task t False) \<and> iteration_succeeds e task k True \<and> int k < n
      \<longrightarrow> fst (run_loop e task n m) = None
          \<and> (\<exists>recs. history (snd (run_loop e task n m)) = history m @ recs
                \<and> map iteration_id recs = map int [0..<Suc k]))
   \<and> ((\<forall>t. int t < n \<longrightarrow> iteration_succeeds e task t False)
      \<longrightarrow> fst (run_loop e task n m) = None
          \<and> length (history (snd (run_loop e task n m))) = length (history m) + nat n)
   \<and> (\<exists>recs. history (snd (run_loop e task n m)) = history m @ recs
         \<and> length recs \<le> nat n
         \<and> (\<forall>i. Suc i < length recs \<longrightarrow> \<not> has_sentinel (recs ! i))
         \<and> (fst (run_loop e task n m) = None \<and> length recs < nat n
              \<longrightarrow> recs \<noteq> [] \<and> has_sentinel (last recs)))"
proof (intro conjI impI)
  assume a: "(\<forall>t<2. iteration_succeeds e task t False) \<and> iteration_succeeds e task 2 True"
  then obtain recs where none: "fst (run_loop e task 5 m) = None"
    and h: "history (snd (run_loop e task 5 m)) = history m @ recs"
    and ids: "map iteration_id recs = map int [0..<Suc 2]"
    using run_loop_converges [of 2 e task 5 m] by auto
  have "map int [0..<Suc 2] = [0, 1, 2]"
    by (simp add: upt_rec)
  with ids have ids': "map iteration_id recs = [0, 1, 2]"
    by simp
  then have "length recs = 3"
    by (metis length_map length_Cons list.size(3) numeral_3_eq_3)
  with h show "length (history (snd (run_loop e task 5 m))) = length (history m) + 3"
    by simp
  from h ids' show "map iteration_id (drop (length (history m)) (history (snd (run_loop e task 5 m))))
            = [0, 1, 2]"
    by simp
  from none show "fst (run_loop e task 5 m) = None" .
next
  assume a: "(\<forall>t<k. iteration_succeeds e task t False) \<and> iteration_succeeds e task k True
             \<and> int k < n"
  then have r: "fst (run_loop e task n m) = None
     \<and> (\<exists>recs. history (snd (run_loop e task n m)) = history m @ recs
           \<and> map iteration_id recs = map int [0..<Suc k])"
    using run_loop_converges [of k e task n m] by blast
  from r show "fst (run_loop e task n m) = None" ..
  from r show "\<exists>recs. history (snd (run_loop e task n m)) = history m @ recs
           \<and> map iteration_id recs = map int [0..<Suc k]" ..
next
  assume a: "\<forall>t. int t < n \<longrightarrow> iteration_succeeds e task t False"
  then have r: "fst (run_loop e task n m) = None
     \<and> length (history (snd (run_loop e task n m))) = length (history m) + nat n"
    by (rule run_loop_exhausts)
  from r show "fst (run_loop e task n m) = None" ..
  from r show "length (history (snd (run_loop e task n m))) = length (history m) + nat n" ..
next
  show "\<exists>recs. history (snd (run_loop e task n m)) = history m @ recs
         \<and> length recs \<le> nat n
         \<and> (\<forall>i. Suc i < length recs \<longrightarrow> \<not> has_sentinel (recs ! i))
         \<and> (fst (run_loop e task n m) = None \<and> length recs < nat n
              \<longrightarrow> recs \<noteq> [] \<and> has_sentinel (last recs))"
    by (rule run_loop_trace)
qed

lemma converging_env_iteration:
  "iteration_succeeds converging_env task t (t = 2)"
proof -
  have s1: "sublist ''OBJECTIVE COMPLETE'' ''OBJECTIVE COMPLETE''"
    by simp
  have s2: "\<not> sublist ''OBJECTIVE COMPLETE'' ''ok''"
    by code_simp
  show ?thesis
    unfolding iteration_succeeds_def
  proof (intro conjI allI)
    fix memory
    show "\<exists>ctx. generate_step converging_env task memory t = Inr ctx"
      by (simp add: generate_step_def make_plan_def converging_env_def Let_def)
  next
    fix c
    have "dict_get [(''status'', PStr ''success''), (''output'', PStr ''Code executed'')]
            ''status'' PNone \<noteq> PStr ''error''"
      by (simp add: dict_get_def)
    then show "\<exists>r. mcp_execute_code converging_env t c = Inr r
                 \<and> dict_get r ''status'' PNone \<noteq> PStr ''error''"
      by (simp add: converging_env_def)
  next
    fix ctx
    have "verify_step converging_env t task ctx
            = Inr (if t = 2 then ''OBJECTIVE COMPLETE'' else ''ok'')"
      by (simp add: verify_step_def converging_env_def Let_def)
    then show "\<exists>fb. verify_step converging_env t task ctx = Inr fb
                 \<and> sublist ''OBJECTIVE COMPLETE'' fb = (t = 2)"
      using s1 s2 by auto
  qed
qed

theorem run_loop_stops_at_sentinel_or_maximum_witness:
  "fst (run_loop converging_env ''cube'' 5 (VIGAMemory_init 3)) = None
   \<and> length (history (snd (run_loop converging_env ''cube'' 5 (VIGAMemory_init 3)))) = 3
   \<and> map iteration_id (history (snd (run_loop converging_env ''cube'' 5 (VIGAMemory_init 3))))
     = [0, 1, 2]"
proof -
  have quiet: "\<forall>t<2. iteration_succeeds converging_env ''cube'' t False"
    using converging_env_iteration [of "''cube''"] by (metis nat_neq_iff)
  have stop: "iteration_succeeds converging_env ''cube'' 2 True"
    using converging_env_iteration [of "''cube''" 2] by simp
  have h0: "history (VIGAMemory_init 3) = []"
    by (simp add: VIGAMemory_init_def)
  show ?thesis
    using run_loop_stops_at_sentinel_or_maximum
      [of converging_env "''cube''" "VIGAMemory_init 3"] quiet stop
    by (simp add: h0)
qed

lemma generate_step_without_verifier:
  "generate_step
     (e\<lparr>initialize_viewpoint := iv, get_scene_info_text := si, get_viewport_screenshot := vs\<rparr>)
     task memory t = generate_step e task memory t"
  by (simp add: generate_step_def make_plan_def Let_def split: sum.splits)

lemma iteration_host_fails:
  assumes "host_fails e task t"
  shows "\<exists>r. iteration e task t memory = Inr (add_iteration memory r, False)
           \<and> iteration
                (e\<lparr>initialize_viewpoint := iv, get_scene_info_text := si,
                   get_viewport_screenshot := vs\<rparr>) task t memory
              = Inr (add_iteration memory r, False)
           \<and> (\<exists>s. execution_result r = Some s \<and> s \<noteq> [])
           \<and> (\<exists>errs. visual_feedback r = Some (''Execution Error: '' @ errs))"
proof -
  let ?e' = "e\<lparr>initialize_viewpoint := iv, get_scene_info_text := si,
               get_viewport_screenshot := vs\<rparr>"
  obtain ctx where g: "generate_step e task memory t = Inr ctx"
    using assms unfolding host_fails_def by blast
  obtain r where x: "mcp_execute_code e t (code ctx) = Inr r"
    and err: "dict_get r ''status'' PNone = PStr ''error''"
    and quiet: "\<not> sublist ''OBJECTIVE COMPLETE''
                  (''Execution Error: '' @ py_str (float_repr e) (dict_get r ''errors'' PNone))"
    using assms unfolding host_fails_def by metis
  let ?r = "ctx\<lparr>execution_result := Some (py_str (float_repr e) (PDict r)),
               visual_feedback :=
                 Some (''Execution Error: '' @ py_str (float_repr e) (dict_get r ''errors'' PNone))\<rparr>"
  have a: "iteration e task t memory = Inr (add_iteration memory ?r, False)"
    using iteration_host_error [OF g x err] quiet by simp
  have g': "generate_step ?e' task memory t = Inr ctx"
    using g by (simp add: generate_step_without_verifier)
  have x': "mcp_execute_code ?e' t (code ctx) = Inr r"
    using x by simp
  have b: "iteration ?e' task t memory = Inr (add_iteration memory ?r, False)"
    using iteration_host_error [OF g' x' err] quiet by simp
  have c: "\<exists>s. execution_result ?r = Some s \<and> s \<noteq> []"
    by (simp add: py_str_dict_nonempty)
  have d: "\<exists>errs. visual_feedback ?r = Some (''Execution Error: '' @ errs)"
    by simp
  from a b c d show ?thesis
    by blast
qed

lemma loop_host_fails:
  assumes "\<forall>t \<in> set ts. host_fails e task t"
  shows "\<exists>recs. loop e task ts memory = (None, foldl add_iteration memory recs)
           \<and> loop (e\<lparr>initialize_viewpoint := iv, get_scene_info_text := si,
                      get_viewport_screenshot := vs\<rparr>) task ts memory
              = (None, foldl add_iteration memory recs)
           \<and> length recs = length ts
           \<and> (\<forall>x \<in> set recs. (\<exists>s. execution_result x = Some s \<and> s \<noteq> [])
                 \<and> (\<exists>errs. visual_feedback x = Some (''Execution Error: '' @ errs)))"
  using assms
proof (induction ts arbitrary: memory)
  case Nil
  show ?case
    by (intro exI [of _ "[]"]) simp
next
  case (Cons t ts)
  let ?e' = "e\<lparr>initialize_viewpoint := iv, get_scene_info_text := si,
               get_viewport_screenshot := vs\<rparr>"
  have "host_fails e task t"
    using Cons.prems by simp
  then obtain r where a: "iteration e task t memory = Inr (add_iteration memory r, False)"
    and b: "iteration ?e' task t memory = Inr (add_iteration memory r, False)"
    and c: "(\<exists>s. execution_result r = Some s \<and> s \<noteq> [])
            \<and> (\<exists>errs. visual_feedback r = Some (''Execution Error: '' @ errs))"
    using iteration_host_fails [of e task t memory vs si iv] by blast
  have "\<forall>t \<in> set ts. host_fails e task t"
    using Cons.prems by simp
  then obtain recs where
    a': "loop e task ts (add_iteration memory r)
           = (None, foldl add_iteration (add_iteration memory r) recs)"
    and b': "loop ?e' task ts (add_iteration memory r)
           = (None, foldl add_iteration (add_iteration memory r) recs)"
    and len: "length recs = length ts"
    and c': "\<forall>x \<in> set recs. (\<exists>s. execution_result x = Some s \<and> s \<noteq> [])
                 \<and> (\<exists>errs. visual_feedback x = Some (''Execution Error: '' @ errs))"
    using Cons.IH [of "add_iteration memory r"] by blast
  have "loop e task (t # ts) memory = (None, foldl add_iteration memory (r # recs))"
    using a a' by simp
  moreover have "loop ?e' task (t # ts) memory = (None, foldl add_iteration memory (r # recs))"
    using b b' by simp
  moreover have "length (r # recs) = length (t # ts)"
    using len by simp
  moreover have "\<forall>x \<in> set (r # recs). (\<exists>s. execution_result x = Some s \<and> s \<noteq> [])
                 \<and> (\<exists>errs. visual_feedback x = Some (''Execution Error: '' @ errs))"
    using c c' by simp
  ultimately show ?case
    by blast
qed

lemma run_loop_host_fails:
  assumes "\<forall>t. int t < n \<longrightarrow> host_fails e task t"
  shows "fst (run_loop e task n m) = None
     \<and> (\<exists>recs. history (snd (run_loop e task n m)) = history m @ recs
           \<and> length recs = nat n
           \<and> (\<forall>x \<in> set recs. (\<exists>s. execution_result x = Some s \<and> s \<noteq> [])
                 \<and> (\<exists>errs. visual_feedback x = Some (''Execution Error: '' @ errs))))
     \<and> run_loop (e\<lparr>initialize_viewpoint := iv, get_scene_info_text := si,
                    get_viewport_screenshot := vs\<rparr>) task n m
        = run_loop e task n m"
proof -
  let ?m0 = "m\<lparr>static_context := (static_context m)(''task'' \<mapsto> task)\<rparr>"
  let ?e' = "e\<lparr>initialize_viewpoint := iv, get_scene_info_text := si,
               get_viewport_screenshot := vs\<rparr>"
  have "\<forall>t \<in> set [0..<nat n]. host_fails e task t"
    using assms by auto
  then obtain recs where a: "loop e task [0..<nat n] ?m0 = (None, foldl add_iteration ?m0 recs)"
    and b: "loop ?e' task [0..<nat n] ?m0 = (None, foldl add_iteration ?m0 recs)"
    and len: "length recs = length [0..<nat n]"
    and c: "\<forall>x \<in> set recs. (\<exists>s. execution_result x = Some s \<and> s \<noteq> [])
                 \<and> (\<exists>errs. visual_feedback x = Some (''Execution Error: '' @ errs))"
    using loop_host_fails [of "[0..<nat n]" e task ?m0 vs si iv] by blast
  have "history (snd (run_loop e task n m)) = history m @ recs"
    unfolding run_loop_def a by (simp add: history_appended_from)
  moreover have "length recs = nat n"
    using len by simp
  moreover have "fst (run_loop e task n m) = None"
    unfolding run_loop_def a by simp
  moreover have "run_loop ?e' task n m = run_loop e task n m"
    unfolding run_loop_def a b ..
  ultimately show ?thesis
    using c by blast
qed

text \<open>
  C2, as stated: with a host that always fails the loop runs all \<open>max_iterations\<close>
  iterations. The failure text is stored as the feedback of the record, and the
  convergence test reads that feedback like any other: with a host whose error list
  holds the text \<open>OBJECTIVE COMPLETE\<close>, a run of at most 3 iterations returns after the first.
\<close>

theorem run_loop_failing_host_counterexample:
  "mcp_execute_code (failing_env [''OBJECTIVE COMPLETE'']) 0 (Some ''ok'')
     = Inr [(''status'', PStr ''error''), (''output'', PStr []),
            (''errors'', PList [PStr ''OBJECTIVE COMPLETE''])]
   \<and> fst (run_loop (failing_env [''OBJECTIVE COMPLETE'']) ''cube'' 3 (VIGAMemory_init 3)) = None
   \<and> length (history (snd (run_loop (failing_env [''OBJECTIVE COMPLETE'']) ''cube'' 3
               (VIGAMemory_init 3)))) = 1
   \<and> length (history (snd (run_loop (failing_env [''OBJECTIVE COMPLETE'']) ''cube'' 3
               (VIGAMemory_init 3)))) \<noteq> 3"
proof (intro conjI)
  show "mcp_execute_code (failing_env [''OBJECTIVE COMPLETE'']) 0 (Some ''ok'')
     = Inr [(''status'', PStr ''error''), (''output'', PStr []),
            (''errors'', PList [PStr ''OBJECTIVE COMPLETE''])]"
    by (simp add: failing_env_def)
  show "fst (run_loop (failing_env [''OBJECTIVE COMPLETE'']) ''cube'' 3 (VIGAMemory_init 3)) = None"
    by code_simp
  show len: "length (history (snd (run_loop (failing_env [''OBJECTIVE COMPLETE'']) ''cube'' 3
               (VIGAMemory_init 3)))) = 1"
    by code_simp
  show "length (history (snd (run_loop (failing_env [''OBJECTIVE COMPLETE'']) ''cube'' 3
               (VIGAMemory_init 3)))) \<noteq> 3"
    unfolding len by simp
qed

text \<open>
  C2, amended. Whenever the host reports failure (status \<open>error\<close>) for an iteration, the
  verifier is not invoked for it: the pass is determined by the generator's record and
  the host's reply alone, the reply is recorded as the execution result of the record, which
  is never empty, the failure text becomes its feedback, the record is appended, and no
  exception leaves the pass; the loop goes on to the next iteration unless that feedback
  carries the sentinel. With a host that fails in every iteration and whose failure texts
  are free of the sentinel, the loop runs all \<open>max_iterations\<close> iterations and returns;
  every appended record has a non-empty execution result and a feedback that is the
  recorded failure, and the run is the same whatever the skills of the verifier would do.
\<close>

theorem run_loop_absorbs_host_failure:
  "(generate_step e task m t = Inr ctx \<and> mcp_execute_code e t (code ctx) = Inr r
      \<and> dict_get r ''status'' PNone = PStr ''error''
      \<longrightarrow> iteration e task t m
            = Inr (add_iteration m
                     (ctx\<lparr>execution_result := Some (py_str (float_repr e) (PDict r)),
                          visual_feedback :=
                            Some (''Execution Error: ''
                                  @ py_str (float_repr e) (dict_get r ''errors'' PNone))\<rparr>),
                   sublist ''OBJECTIVE COMPLETE''
                     (''Execution Error: ''
                      @ py_str (float_repr e) (dict_get r ''errors'' PNone)))
          \<and> py_str (float_repr e) (PDict r) \<noteq> [])
   \<and> ((\<forall>t. int t < n \<longrightarrow> host_fails e task t)
      \<longrightarrow> fst (run_loop e task n m) = None
          \<and> (\<exists>recs. history (snd (run_loop e task n m)) = history m @ recs
                \<and> length recs = nat n
                \<and> (\<forall>x \<in> set recs. (\<exists>s. execution_result x = Some s \<and> s \<noteq> [])
                      \<and> (\<exists>errs. visual_feedback x = Some (''Execution Error: '' @ errs))))
          \<and> run_loop (e\<lparr>initialize_viewpoint := iv, get_scene_info_text := si,
                         get_viewport_screenshot := vs\<rparr>) task n m
             = run_loop e task n m)"
proof (intro conjI impI)
  assume a: "generate_step e task m t = Inr ctx \<and> mcp_execute_code e t (code ctx) = Inr r
      \<and> dict_get r ''status'' PNone = PStr ''error''"
  then show "iteration e task t m
            = Inr (add_iteration m
                     (ctx\<lparr>execution_result := Some (py_str (float_repr e) (PDict r)),
                          visual_feedback :=
                            Some (''Execution Error: ''
                                  @ py_str (float_repr e) (dict_get r ''errors'' PNone))\<rparr>),
                   sublist ''OBJECTIVE COMPLETE''
                     (''Execution Error: ''
                      @ py_str (float_repr e) (dict_get r ''errors'' PNone)))"
    using iteration_host_error [of e task m t ctx r] by blast
  show "py_str (float_repr e) (PDict r) \<noteq> []"
    by (rule py_str_dict_nonempty)
next
  assume a: "\<forall>t. int t < n \<longrightarrow> host_fails e task t"
  have r: "fst (run_loop e task n m) = None
     \<and> (\<exists>recs. history (snd (run_loop e task n m)) = history m @ recs
           \<and> length recs = nat n
           \<and> (\<forall>x \<in> set recs. (\<exists>s. execution_result x = Some s \<and> s \<noteq> [])
                 \<and> (\<exists>errs. visual_feedback x = Some (''Execution Error: '' @ errs))))
     \<and> run_loop (e\<lparr>initialize_viewpoint := iv, get_scene_info_text := si,
                    get_viewport_screenshot := vs\<rparr>) task n m
        = run_loop e task n m"
    using a by (rule run_loop_host_fails)
  from r show "fst (run_loop e task n m) = None"
    by blast
  from r show "\<exists>recs. history (snd (run_loop e task n m)) = history m @ recs
                \<and> length recs = nat n
                \<and> (\<forall>x \<in> set recs. (\<exists>s. execution_result x = Some s \<and> s \<noteq> [])
                      \<and> (\<exists>errs. visual_feedback x = Some (''Execution Error: '' @ errs)))"
    by blast
  from r show "run_loop (e\<lparr>initialize_viewpoint := iv, get_scene_info_text := si,
                         get_viewport_screenshot := vs\<rparr>) task n m
             = run_loop e task n m"
    by blast
qed

theorem run_loop_absorbs_host_failure_witness:
  "fst (run_loop (failing_env [''boom'']) ''cube'' 3 (VIGAMemory_init 3)) = None
   \<and> length (history (snd (run_loop (failing_env [''boom'']) ''cube'' 3 (VIGAMemory_init 3)))) = 3
   \<and> iteration (failing_env [''boom'']) ''cube'' 0 (VIGAMemory_init 3)
     = Inr (add_iteration (VIGAMemory_init 3)
              ((IterationContext_init 0 (Some ''ok'') (Some ''ok''))
                 \<lparr>execution_result :=
                    Some (py_str (\<lambda>x. [])
                            (PDict [(''status'', PStr ''error''), (''output'', PStr []),
                                    (''errors'', PList [PStr ''boom''])])),
                  visual_feedback :=
                    Some (''Execution Error: '' @ py_str (\<lambda>x. []) (PList [PStr ''boom'']))\<rparr>),
            False)"
proof -
  let ?e = "failing_env [''boom'']"
  let ?r = "[(''status'', PStr ''error''), (''output'', PStr []),
             (''errors'', PList [PStr ''boom''])]"
  have quiet: "\<not> sublist ''OBJECTIVE COMPLETE''
                 (''Execution Error: '' @ py_str (\<lambda>x. []) (PList [PStr ''boom'']))"
    by code_simp
  have st: "dict_get ?r ''status'' PNone = PStr ''error''"
    and er: "dict_get ?r ''errors'' PNone = PList [PStr ''boom'']"
    by (simp_all add: dict_get_def)
  have fr: "float_repr ?e = (\<lambda>x. [])"
    by (simp add: failing_env_def)
  have x: "mcp_execute_code ?e t c = Inr ?r" for t c
    by (simp add: failing_env_def)
  have ex: "extract_code_from_response ''ok'' = ''ok''"
    by code_simp
  have g: "generate_step ?e ''cube'' memory t
             = Inr (IterationContext_init (int t) (Some ''ok'') (Some ''ok''))" for memory t
    by (simp add: generate_step_def make_plan_def failing_env_def Let_def ex)
  have hf: "\<forall>t. int t < 3 \<longrightarrow> host_fails ?e ''cube'' t"
    unfolding host_fails_def using g x st er fr quiet by simp
  have h0: "history (VIGAMemory_init 3) = []"
    by (simp add: VIGAMemory_init_def)
  have c0: "code (IterationContext_init 0 (Some ''ok'') (Some ''ok'')) = Some ''ok''"
    by (simp add: IterationContext_init_def)
  have pre: "generate_step ?e ''cube'' (VIGAMemory_init 3) 0
               = Inr (IterationContext_init 0 (Some ''ok'') (Some ''ok''))
             \<and> mcp_execute_code ?e 0 (code (IterationContext_init 0 (Some ''ok'') (Some ''ok'')))
               = Inr ?r
             \<and> dict_get ?r ''status'' PNone = PStr ''error''"
    using g [of "VIGAMemory_init 3" 0] x st by simp
  note inst = run_loop_absorbs_host_failure
    [of ?e "''cube''" "VIGAMemory_init 3" 0 "IterationContext_init 0 (Some ''ok'') (Some ''ok'')"
        ?r 3]
  have run: "fst (run_loop ?e ''cube'' 3 (VIGAMemory_init 3)) = None
     \<and> (\<exists>recs. history (snd (run_loop ?e ''cube'' 3 (VIGAMemory_init 3)))
                  = history (VIGAMemory_init 3) @ recs \<and> length recs = nat 3)"
    using inst hf by blast
  then have len: "length (history (snd (run_loop ?e ''cube'' 3 (VIGAMemory_init 3)))) = 3"
    using h0 by auto
  have it: "iteration ?e ''cube'' 0 (VIGAMemory_init 3)
     = Inr (add_iteration (VIGAMemory_init 3)
              ((IterationContext_init 0 (Some ''ok'') (Some ''ok''))
                 \<lparr>execution_result := Some (py_str (float_repr ?e) (PDict ?r)),
                  visual_feedback :=
                    Some (''Execution Error: ''
                          @ py_str (float_repr ?e) (dict_get ?r ''errors'' PNone))\<rparr>),
            sublist ''OBJECTIVE COMPLETE''
              (''Execution Error: '' @ py_str (float_repr ?e) (dict_get ?r ''errors'' PNone)))"
    using inst pre by blast
  from run len it show ?thesis
    unfolding fr er using quiet by simp
qed

end
